theory Spec2Isabelle
  imports Complex_Main "HOL-Library.Multiset"
begin

section \<open>Data model of ResultsChecker.tsx\<close>

text \<open>
  JavaScript numbers that reach the component are finite IEEE doubles decoded from JSON.
  Each is modelled by its exact rational value: the sign of a difference of two finite
  doubles is the sign of the difference of their values, and \<open>toFixed\<close> is specified by
  ECMA-262 on the exact value. The one builtin that depends on the binary representation,
  \<open>Number::toString\<close> (shortest round-trip digits), is taken as a parameter \<open>ts\<close>.

  A JavaScript string is modelled by the \<open>string\<close> of its bytes in UTF-8, so an ASCII
  string is modelled by itself. The code concatenates strings, compares them and tests
  them for emptiness, which the bytes decide; the one builtin that depends on Unicode
  tables, \<open>String.prototype.toUpperCase\<close> on a string that is not ASCII, is taken as a
  parameter \<open>up\<close>.

  A string field that the code only ever tests for truthiness or compares with a
  non-empty string is a \<open>string\<close> whose empty value also stands for an absent one. A field
  that the code treats alike when it is \<open>null\<close> and when it is absent is an \<open>option\<close>.
  The weighted percent is printed differently in the two cases, so it has a value for
  each.
\<close>

datatype js_number =
    JsUndefined
  | JsNull
  | JsNumber rat

record Subject =
  subjectName :: string
  subjectWeightedPercent :: rat
  markPercent :: "rat option"
  letterGrade :: "string option"
  subjectId :: string

record StudentResult =
  studentNames :: string
  studentIndexNumber :: string
  studentNationalId :: "string option"
  academicYear :: string
  attendedSchool :: "string option"
  weightedPercent :: js_number
  division :: string
  combination :: "string option"
  rawMark :: "Subject list option"
  placedSchoolName :: "string option"
  placedCombinationName :: "string option"

text \<open>The part of the component state that the class operations read and write.\<close>

record component =
  schoolCode :: string
  levelCode :: string
  examYear :: string
  classLoading :: bool
  classResults :: "StudentResult list"
  classSchoolName :: string
  isClassModalOpen :: bool

record toast =
  title :: string
  description :: string
  destructive :: bool

text \<open>
  What one \<open>await fetch(...)\<close> followed by \<open>await res.json()\<close> can do once it
  settles: the fetch rejects, the response is not \<open>ok\<close>, decoding the body throws, or a
  value is decoded (\<open>None\<close> for a falsy value such as \<open>null\<close>). A request that never
  settles is outside the model: the code sets no timeout.
\<close>

datatype response =
    FetchError
  | NotOk
  | JsonError
  | Data "StudentResult option"

section \<open>String builtins\<close>

definition digit_char :: "nat \<Rightarrow> char" where
  "digit_char d = ''0123456789'' ! (d mod 10)"

text \<open>\<open>String(n)\<close> for a non-negative integer \<open>n\<close>.\<close>

fun String_nat :: "nat \<Rightarrow> string" where
  "String_nat n =
     (if n < 10 then [digit_char n] else String_nat (n div 10) @ [digit_char (n mod 10)])"

declare String_nat.simps [simp del]

text \<open>\<open>s.padStart(n, c)\<close> with a one-character filler.\<close>

definition padStart :: "nat \<Rightarrow> char \<Rightarrow> string \<Rightarrow> string" where
  "padStart n c s = replicate (n - length s) c @ s"

definition upper_char :: "char \<Rightarrow> char" where
  "upper_char c =
     (let k = (of_char c :: nat) in if 97 \<le> k \<and> k \<le> 122 then char_of (k - 32) else c)"

text \<open>
  \<open>s.toUpperCase()\<close>: on an ASCII string the letters a to z are replaced by A to Z and
  nothing else changes; any other string is handed to the Unicode mapping \<open>up\<close> of the
  runtime, which may also change its length.
\<close>

definition is_ascii :: "string \<Rightarrow> bool" where
  "is_ascii s \<longleftrightarrow> list_all (\<lambda>c. (of_char c :: nat) < 128) s"

definition toUpperCase :: "(string \<Rightarrow> string) \<Rightarrow> string \<Rightarrow> string" where
  "toUpperCase up s = (if is_ascii s then map upper_char s else up s)"

text \<open>
  \<open>x.toFixed(1)\<close> after ECMA-262: the sign is split off, magnitudes from \<open>10^21\<close> on fall
  back to \<open>Number::toString\<close>, otherwise \<open>n\<close> is the integer nearest to \<open>10 * x\<close> (the
  larger one on a tie), printed with the point before its last digit.
\<close>

definition toFixed1 :: "(rat \<Rightarrow> string) \<Rightarrow> rat \<Rightarrow> string" where
  "toFixed1 ts x =
     (let s = (if x < 0 then ''-'' else '''');
          a = \<bar>x\<bar>
      in if 10 ^ 21 \<le> a then s @ ts a
         else
           let n = nat \<lfloor>a * 10 + 1 / 2\<rfloor>;
               m = String_nat n;
               m' = (if length m \<le> 1 then replicate (2 - length m) (CHR ''0'') @ m else m);
               k = length m'
           in s @ take (k - 1) m' @ ''.'' @ drop (k - 1) m')"

section \<open>Class fetch\<close>

definition MAX_CONSECUTIVE_EMPTY :: nat where
  "MAX_CONSECUTIVE_EMPTY = 20"

definition MAX_STUDENTS :: nat where
  "MAX_STUDENTS = 1000"

definition seqStr :: "nat \<Rightarrow> string" where
  "seqStr n = padStart 3 (CHR ''0'') (String_nat n)"

definition idx :: "(string \<Rightarrow> string) \<Rightarrow> string \<Rightarrow> string \<Rightarrow> string \<Rightarrow> nat \<Rightarrow> string" where
  "idx up sc lc yr n = sc @ toUpperCase up lc @ seqStr n @ yr"

text \<open>
  The loop variables of \<open>fetchClassResults\<close>, together with the log of the index numbers
  for which a request was issued (the loop's only effect besides its variables).
\<close>

record scan_state =
  results :: "StudentResult list"
  seq :: nat
  emptyCount :: nat
  requested :: "string list"

definition loop_cond :: "scan_state \<Rightarrow> bool" where
  "loop_cond st \<longleftrightarrow> emptyCount st < MAX_CONSECUTIVE_EMPTY \<and> seq st \<le> MAX_STUDENTS"

text \<open>
  One pass through the loop body. \<open>resp n\<close> is what the network does with the request
  issued while the counter is \<open>n\<close>. The \<open>NotOk\<close> branch is the \<open>continue\<close> path, which
  bumps both counters itself; the other branches fall through to the final \<open>seq++\<close>.
\<close>

definition loop_body ::
  "(string \<Rightarrow> string) \<Rightarrow> string \<Rightarrow> string \<Rightarrow> string \<Rightarrow> (nat \<Rightarrow> response)
     \<Rightarrow> scan_state \<Rightarrow> scan_state" where
  "loop_body up sc lc yr resp st =
     (let st1 = st\<lparr>requested := requested st @ [idx up sc lc yr (seq st)]\<rparr>
      in case resp (seq st) of
           NotOk \<Rightarrow> st1\<lparr>emptyCount := emptyCount st + 1, seq := seq st + 1\<rparr>
         | Data data \<Rightarrow>
             (case data of
                Some d \<Rightarrow>
                  if studentNames d \<noteq> []
                  then st1\<lparr>results := results st @ [d], emptyCount := 0, seq := seq st + 1\<rparr>
                  else st1\<lparr>emptyCount := emptyCount st + 1, seq := seq st + 1\<rparr>
              | None \<Rightarrow> st1\<lparr>emptyCount := emptyCount st + 1, seq := seq st + 1\<rparr>)
         | JsonError \<Rightarrow> st1\<lparr>emptyCount := emptyCount st + 1, seq := seq st + 1\<rparr>
         | FetchError \<Rightarrow> st1\<lparr>emptyCount := emptyCount st + 1, seq := seq st + 1\<rparr>)"

function scan_loop ::
  "(string \<Rightarrow> string) \<Rightarrow> string \<Rightarrow> string \<Rightarrow> string \<Rightarrow> (nat \<Rightarrow> response)
     \<Rightarrow> scan_state \<Rightarrow> scan_state" where
  "scan_loop up sc lc yr resp st =
     (if loop_cond st then scan_loop up sc lc yr resp (loop_body up sc lc yr resp st) else st)"
  by pat_completeness auto
termination
  by (relation "measure (\<lambda>(up, sc, lc, yr, resp, st). Suc MAX_STUDENTS - seq st)")
     (auto simp: loop_cond_def loop_body_def Let_def split: response.splits option.splits)

declare scan_loop.simps [simp del]

definition scan_init :: scan_state where
  "scan_init = \<lparr>results = [], seq = 1, emptyCount = 0, requested = []\<rparr>"

text \<open>
  The comparator handed to \<open>results.sort\<close>:
  \<open>(b?.weightedPercent ?? 0) - (a?.weightedPercent ?? 0)\<close>.
\<close>

definition percentOrZero :: "StudentResult \<Rightarrow> rat" where
  "percentOrZero r = (case weightedPercent r of JsNumber w \<Rightarrow> w | _ \<Rightarrow> 0)"

definition compareFn :: "StudentResult \<Rightarrow> StudentResult \<Rightarrow> rat" where
  "compareFn a b = percentOrZero b - percentOrZero a"

text \<open>
  \<open>Array.prototype.sort\<close> is stable, so with a consistent comparator its result is
  determined; it is computed here by insertion from the right, an element going in front
  of the first one it does not compare greater than.
\<close>

fun insert_cmp :: "('a \<Rightarrow> 'a \<Rightarrow> rat) \<Rightarrow> 'a \<Rightarrow> 'a list \<Rightarrow> 'a list" where
  "insert_cmp cmp x [] = [x]"
| "insert_cmp cmp x (y # ys) = (if cmp x y \<le> 0 then x # y # ys else y # insert_cmp cmp x ys)"

definition array_sort :: "('a \<Rightarrow> 'a \<Rightarrow> rat) \<Rightarrow> 'a list \<Rightarrow> 'a list" where
  "array_sort cmp xs = foldr (insert_cmp cmp) xs []"

definition missing_information :: toast where
  "missing_information =
     \<lparr>title = ''Missing Information'',
      description = ''Please enter School Code, Level Code (OLC/PR), and Exam Year.'',
      destructive = True\<rparr>"

definition class_results_retrieved :: "nat \<Rightarrow> toast" where
  "class_results_retrieved n =
     \<lparr>title = ''Class Results Retrieved!'',
      description = ''Found results for '' @ String_nat n @ '' students.'',
      destructive = False\<rparr>"

definition no_results_found :: toast where
  "no_results_found =
     \<lparr>title = ''No Results Found'',
      description =
        ''No results found for this class. Double-check school code, level and year.'',
      destructive = True\<rparr>"

text \<open>
  \<open>fetchClassResults\<close>: the component state after the call, the toast shown and the index
  numbers requested, in order. Nothing between the outer \<open>try\<close> and its \<open>catch\<close> can
  throw outside the inner \<open>try\<close>, so the outer \<open>catch\<close> has no branch here.
\<close>

definition fetchClassResults ::
  "(string \<Rightarrow> string) \<Rightarrow> (nat \<Rightarrow> response) \<Rightarrow> component
     \<Rightarrow> component \<times> toast \<times> string list" where
  "fetchClassResults up resp c =
     (if schoolCode c = [] \<or> levelCode c = [] \<or> examYear c = []
      then (c, missing_information, [])
      else
        let c1 = c\<lparr>classLoading := True, classResults := [], classSchoolName := []\<rparr>;
            fin = scan_loop up (schoolCode c) (levelCode c) (examYear c) resp scan_init;
            sorted = array_sort compareFn (results fin)
        in case sorted of
             r0 # _ \<Rightarrow>
               (c1\<lparr>classSchoolName := (case attendedSchool r0 of None \<Rightarrow> [] | Some s \<Rightarrow> s),
                   classResults := sorted,
                   isClassModalOpen := True,
                   classLoading := False\<rparr>,
                class_results_retrieved (length sorted),
                requested fin)
           | [] \<Rightarrow>
               (c1\<lparr>classResults := sorted, classLoading := False\<rparr>,
                no_results_found,
                requested fin))"

section \<open>Subject columns and CSV export\<close>

text \<open>\<open>Set.prototype.add\<close> on a set kept in insertion order.\<close>

definition set_add :: "string list \<Rightarrow> string \<Rightarrow> string list" where
  "set_add s x = (if x \<in> set s then s else s @ [x])"

definition add_marks :: "string list \<Rightarrow> Subject list \<Rightarrow> string list" where
  "add_marks s ms =
     fold (\<lambda>m acc. if subjectName m \<noteq> [] then set_add acc (subjectName m) else acc) ms s"

definition classSubjects :: "StudentResult list \<Rightarrow> string list" where
  "classSubjects rs =
     (if length rs = 0 then []
      else fold (\<lambda>st acc. case rawMark st of Some ms \<Rightarrow> add_marks acc ms | None \<Rightarrow> acc) rs [])"

text \<open>The cell pushed for one subject column of one student's row.\<close>

definition markCell :: "(rat \<Rightarrow> string) \<Rightarrow> StudentResult \<Rightarrow> string \<Rightarrow> string" where
  "markCell ts student subject =
     (case (case rawMark student of
              None \<Rightarrow> None
            | Some ms \<Rightarrow> find (\<lambda>m. subjectName m = subject) ms) of
        Some markObj \<Rightarrow>
          (let mark = (case markPercent markObj of
                         Some p \<Rightarrow> toFixed1 ts p @ ''%''
                       | None \<Rightarrow> ''-'');
               grade = (case letterGrade markObj of Some g \<Rightarrow> g | None \<Rightarrow> ''-'')
           in mark @ '' ('' @ grade @ '')'')
      | None \<Rightarrow> ''-'')"

definition orDash :: "string option \<Rightarrow> string" where
  "orDash v = (case v of None \<Rightarrow> ''-'' | Some s \<Rightarrow> if s = [] then ''-'' else s)"

definition csv_headers :: "StudentResult list \<Rightarrow> string list" where
  "csv_headers rs =
     [''Index Number'', ''Name'', ''Weighted %'', ''Division'', ''Placed School'',
      ''Placed Combination''] @ classSubjects rs"

definition csv_row :: "(rat \<Rightarrow> string) \<Rightarrow> string list \<Rightarrow> StudentResult \<Rightarrow> string list" where
  "csv_row ts subjects student =
     [studentIndexNumber student,
      studentNames student,
      (case weightedPercent student of
         JsUndefined \<Rightarrow> ''undefined''
       | JsNull \<Rightarrow> ''null''
       | JsNumber w \<Rightarrow> ts w) @ ''%'',
      division student,
      orDash (placedSchoolName student),
      orDash (placedCombinationName student)]
     @ map (markCell ts student) subjects"

text \<open>\<open>xs.join(sep)\<close>.\<close>

fun join :: "string \<Rightarrow> string list \<Rightarrow> string" where
  "join sep [] = []"
| "join sep [x] = x"
| "join sep (x # y # ys) = x @ sep @ join sep (y # ys)"

definition quote_cell :: "string \<Rightarrow> string" where
  "quote_cell cell = [CHR 0x22] @ cell @ [CHR 0x22]"

definition csvContent :: "(rat \<Rightarrow> string) \<Rightarrow> StudentResult list \<Rightarrow> string" where
  "csvContent ts rs =
     join [CHR 0x0A]
       (map (\<lambda>row. join '','' (map quote_cell row))
          (csv_headers rs # map (csv_row ts (classSubjects rs)) rs))"

definition no_data :: toast where
  "no_data =
     \<lparr>title = ''No Data'', description = ''No class results to export.'', destructive = True\<rparr>"

definition export_complete :: toast where
  "export_complete =
     \<lparr>title = ''Export Complete'',
      description = ''Class results have been exported to CSV.'',
      destructive = False\<rparr>"

text \<open>
  \<open>exportClassResultsCSV\<close>: either only the rejecting toast (\<open>Inl\<close>), or the name and
  content of the downloaded file with the closing toast.
\<close>

definition exportClassResultsCSV ::
  "(rat \<Rightarrow> string) \<Rightarrow> component \<Rightarrow> toast + (string \<times> string \<times> toast)" where
  "exportClassResultsCSV ts c =
     (if length (classResults c) = 0 then Inl no_data
      else Inr (''class_results_'' @ schoolCode c @ ''_'' @ levelCode c @ ''_'' @ examYear c
                  @ ''.csv'',
                csvContent ts (classResults c),
                export_complete))"

section \<open>Vocabulary of the specification\<close>

text \<open>
  The specification classifies each probe as found or empty: found is a decoded payload
  whose \<open>studentNames\<close> is truthy, everything else is empty.
\<close>

definition found_record :: "response \<Rightarrow> StudentResult option" where
  "found_record r =
     (case r of
        Data (Some d) \<Rightarrow> if studentNames d \<noteq> [] then Some d else None
      | _ \<Rightarrow> None)"

definition is_found :: "response \<Rightarrow> bool" where
  "is_found r \<longleftrightarrow> found_record r \<noteq> None"

text \<open>
  The subject names a list of results mentions, in the order the records and their marks
  are traversed. A mark whose name is empty has no subject name.
\<close>

definition subject_names :: "StudentResult list \<Rightarrow> string list" where
  "subject_names rs =
     concat (map (\<lambda>st. case rawMark st of
                          None \<Rightarrow> []
                        | Some ms \<Rightarrow> filter (\<lambda>n. n \<noteq> []) (map subjectName ms)) rs)"

text \<open>A list without its repetitions, each element at the place of its first occurrence.\<close>

fun first_seen :: "'a list \<Rightarrow> 'a list" where
  "first_seen [] = []"
| "first_seen (x # xs) = x # first_seen (removeAll x xs)"

text \<open>Probe scenarios and sample data used to instantiate the results below.\<close>

text \<open>
  The sample level codes are ASCII, so the Unicode mapping is never consulted on them;
  the identity is passed for it.
\<close>

definition identity_upper :: "string \<Rightarrow> string" where
  "identity_upper s = s"

definition never_ok :: "nat \<Rightarrow> response" where
  "never_ok n = NotOk"

definition math_mark :: Subject where
  "math_mark =
     \<lparr>subjectName = ''Math'', subjectWeightedPercent = 70, markPercent = Some 78,
      letterGrade = Some ''A'', subjectId = ''m''\<rparr>"

definition physics_mark :: Subject where
  "physics_mark =
     \<lparr>subjectName = ''Physics'', subjectWeightedPercent = 60, markPercent = Some 78,
      letterGrade = Some ''S'', subjectId = ''p''\<rparr>"

definition chemistry_mark :: Subject where
  "chemistry_mark =
     \<lparr>subjectName = ''Chemistry'', subjectWeightedPercent = 50, markPercent = None,
      letterGrade = None, subjectId = ''c''\<rparr>"

definition student_a :: StudentResult where
  "student_a =
     \<lparr>studentNames = ''Student A'', studentIndexNumber = ''123456OLC0012025'',
      studentNationalId = None, academicYear = ''2025'', attendedSchool = Some ''School'',
      weightedPercent = JsNumber 55, division = ''I'', combination = None,
      rawMark = Some [math_mark, physics_mark],
      placedSchoolName = None, placedCombinationName = None\<rparr>"

definition student_b :: StudentResult where
  "student_b =
     \<lparr>studentNames = ''Student B'', studentIndexNumber = ''123456OLC0022025'',
      studentNationalId = None, academicYear = ''2025'', attendedSchool = Some ''School'',
      weightedPercent = JsNumber 90, division = ''I'', combination = None,
      rawMark = Some [math_mark, chemistry_mark],
      placedSchoolName = Some ''Placed'', placedCombinationName = Some []\<rparr>"

definition student_c :: StudentResult where
  "student_c = student_a\<lparr>rawMark := Some [math_mark]\<rparr>"

text \<open>\<open>Number::toString\<close> on the non-negative integers, where it prints the decimal digits.\<close>

definition toString_integral :: "rat \<Rightarrow> string" where
  "toString_integral x = String_nat (nat \<lfloor>x\<rfloor>)"

definition five_then_none :: "StudentResult \<Rightarrow> nat \<Rightarrow> response" where
  "five_then_none r n = (if n \<le> 5 then Data (Some r) else Data None)"

definition always_found :: "StudentResult \<Rightarrow> nat \<Rightarrow> response" where
  "always_found r n = Data (Some r)"

definition component_a :: component where
  "component_a =
     \<lparr>schoolCode = ''123456'', levelCode = ''olc'', examYear = ''2025'', classLoading = False,
      classResults = [], classSchoolName = [], isClassModalOpen = False\<rparr>"

section \<open>The scan loop\<close>

lemma scan_loop_step:
  "loop_cond st \<Longrightarrow> scan_loop up sc lc yr resp st = scan_loop up sc lc yr resp (loop_body up sc lc yr resp st)"
  by (subst scan_loop.simps) simp

lemma scan_loop_stop: "\<not> loop_cond st \<Longrightarrow> scan_loop up sc lc yr resp st = st"
  by (subst scan_loop.simps) simp

lemma loop_body_found:
  "found_record (resp (seq st)) = Some d \<Longrightarrow>
   loop_body up sc lc yr resp st =
     st\<lparr>requested := requested st @ [idx up sc lc yr (seq st)],
        results := results st @ [d], emptyCount := 0, seq := seq st + 1\<rparr>"
  by (auto simp: loop_body_def found_record_def Let_def split: response.splits option.splits if_splits)

lemma loop_body_empty:
  "found_record (resp (seq st)) = None \<Longrightarrow>
   loop_body up sc lc yr resp st =
     st\<lparr>requested := requested st @ [idx up sc lc yr (seq st)],
        emptyCount := emptyCount st + 1, seq := seq st + 1\<rparr>"
  by (auto simp: loop_body_def found_record_def Let_def split: response.splits option.splits if_splits)

lemma seq_loop_body [simp]: "seq (loop_body up sc lc yr resp st) = seq st + 1"
  by (cases "found_record (resp (seq st))") (simp_all add: loop_body_found loop_body_empty)

lemma requested_loop_body [simp]:
  "requested (loop_body up sc lc yr resp st) = requested st @ [idx up sc lc yr (seq st)]"
  by (cases "found_record (resp (seq st))") (simp_all add: loop_body_found loop_body_empty)

lemma seq_funpow: "seq ((loop_body up sc lc yr resp ^^ n) st) = seq st + n"
  by (induction n) simp_all

lemma requested_funpow:
  "requested ((loop_body up sc lc yr resp ^^ n) st) = requested st @ map (idx up sc lc yr) [seq st ..< seq st + n]"
  by (induction n) (simp_all add: seq_funpow)

lemma emptyCount_funpow_le:
  "emptyCount st \<le> MAX_CONSECUTIVE_EMPTY \<Longrightarrow> \<forall>k<n. loop_cond ((loop_body up sc lc yr resp ^^ k) st) \<Longrightarrow>
   emptyCount ((loop_body up sc lc yr resp ^^ n) st) \<le> MAX_CONSECUTIVE_EMPTY"
proof (induction n)
  case 0
  then show ?case by simp
next
  case (Suc n)
  let ?s = "(loop_body up sc lc yr resp ^^ n) st"
  from Suc.prems have c: "loop_cond ?s" by simp
  show ?case
    using c
    by (cases "found_record (resp (seq ?s))")
       (simp_all add: loop_body_found loop_body_empty loop_cond_def)
qed

lemma scan_loop_iterates:
  "\<exists>n. scan_loop up sc lc yr resp st = (loop_body up sc lc yr resp ^^ n) st
       \<and> (\<forall>k<n. loop_cond ((loop_body up sc lc yr resp ^^ k) st))
       \<and> \<not> loop_cond ((loop_body up sc lc yr resp ^^ n) st)"
proof (induction up sc lc yr resp st rule: scan_loop.induct)
  case (1 up sc lc yr resp st)
  show ?case
  proof (cases "loop_cond st")
    case False
    then have "scan_loop up sc lc yr resp st = (loop_body up sc lc yr resp ^^ 0) st"
      by (simp add: scan_loop_stop)
    with False show ?thesis
      by (intro exI [of _ 0]) simp
  next
    case True
    let ?b = "loop_body up sc lc yr resp"
    from 1 [OF True] obtain n where
      n: "scan_loop up sc lc yr resp (?b st) = (?b ^^ n) (?b st)"
         "\<forall>k<n. loop_cond ((?b ^^ k) (?b st))"
         "\<not> loop_cond ((?b ^^ n) (?b st))"
      by blast
    have "scan_loop up sc lc yr resp st = (?b ^^ Suc n) st"
      using True n(1) by (simp add: scan_loop_step funpow_swap1)
    moreover have "\<forall>k<Suc n. loop_cond ((?b ^^ k) st)"
    proof (intro allI impI)
      fix k assume "k < Suc n"
      then show "loop_cond ((?b ^^ k) st)"
        using True n(2) by (cases k) (simp_all add: funpow_swap1)
    qed
    moreover have "\<not> loop_cond ((?b ^^ Suc n) st)"
      using n(3) by (simp add: funpow_swap1)
    ultimately show ?thesis by blast
  qed
qed

lemma upt_head: "[n ..< n + Suc m] = n # [n + 1 ..< n + 1 + m]"
  by (simp add: upt_conv_Cons del: upt_Suc)

lemma empty_run:
  "emptyCount st + m = MAX_CONSECUTIVE_EMPTY \<Longrightarrow> seq st + m \<le> Suc MAX_STUDENTS \<Longrightarrow>
   \<forall>k. seq st \<le> k \<and> k < seq st + m \<longrightarrow> \<not> is_found (resp k) \<Longrightarrow>
   scan_loop up sc lc yr resp st =
     st\<lparr>requested := requested st @ map (idx up sc lc yr) [seq st ..< seq st + m],
        emptyCount := MAX_CONSECUTIVE_EMPTY, seq := seq st + m\<rparr>"
proof (induction m arbitrary: st)
  case 0
  then have "\<not> loop_cond st" by (simp add: loop_cond_def)
  with 0 show ?case by (simp add: scan_loop_stop)
next
  case (Suc m)
  let ?st' = "loop_body up sc lc yr resp st"
  from Suc.prems have c: "loop_cond st" by (simp add: loop_cond_def)
  from Suc.prems have "found_record (resp (seq st)) = None"
    by (simp add: is_found_def)
  then have b: "?st' = st\<lparr>requested := requested st @ [idx up sc lc yr (seq st)],
        emptyCount := emptyCount st + 1, seq := seq st + 1\<rparr>"
    by (rule loop_body_empty)
  have "scan_loop up sc lc yr resp ?st' =
     ?st'\<lparr>requested := requested ?st' @ map (idx up sc lc yr) [seq ?st' ..< seq ?st' + m],
        emptyCount := MAX_CONSECUTIVE_EMPTY, seq := seq ?st' + m\<rparr>"
    using Suc.prems by (intro Suc.IH) (simp_all add: b)
  then show ?case
    using c unfolding upt_head by (simp add: scan_loop_step b del: upt_Suc)
qed

lemma found_run:
  "emptyCount st < MAX_CONSECUTIVE_EMPTY \<Longrightarrow> seq st + m \<le> Suc MAX_STUDENTS \<Longrightarrow> 0 < m \<Longrightarrow>
   \<forall>k. seq st \<le> k \<and> k < seq st + m \<longrightarrow> is_found (resp k) \<Longrightarrow>
   scan_loop up sc lc yr resp st =
     scan_loop up sc lc yr resp
       (st\<lparr>requested := requested st @ map (idx up sc lc yr) [seq st ..< seq st + m],
           results := results st @ List.map_filter (\<lambda>k. found_record (resp k)) [seq st ..< seq st + m],
           emptyCount := 0, seq := seq st + m\<rparr>)"
proof (induction m arbitrary: st)
  case 0
  then show ?case by simp
next
  case (Suc m)
  let ?st' = "loop_body up sc lc yr resp st"
  from Suc.prems have c: "loop_cond st" by (simp add: loop_cond_def)
  from Suc.prems obtain d where d: "found_record (resp (seq st)) = Some d"
    by (auto simp: is_found_def)
  then have b: "?st' = st\<lparr>requested := requested st @ [idx up sc lc yr (seq st)],
        results := results st @ [d], emptyCount := 0, seq := seq st + 1\<rparr>"
    by (rule loop_body_found)
  show ?case
  proof (cases "m = 0")
    case True
    then show ?thesis using c d by (simp add: scan_loop_step b)
  next
    case False
    have "scan_loop up sc lc yr resp ?st' =
       scan_loop up sc lc yr resp
         (?st'\<lparr>requested := requested ?st' @ map (idx up sc lc yr) [seq ?st' ..< seq ?st' + m],
           results := results ?st' @ List.map_filter (\<lambda>k. found_record (resp k)) [seq ?st' ..< seq ?st' + m],
           emptyCount := 0, seq := seq ?st' + m\<rparr>)"
      using Suc.prems False
      by (intro Suc.IH) (simp_all add: b MAX_CONSECUTIVE_EMPTY_def)
    then show ?thesis
      using c d unfolding upt_head by (simp add: scan_loop_step b del: upt_Suc)
  qed
qed

lemma found_record_name: "found_record r = Some d \<Longrightarrow> studentNames d \<noteq> []"
  by (auto simp: found_record_def split: response.splits option.splits if_splits)

lemma results_loop_body:
  "results (loop_body up sc lc yr resp st) =
     results st @ List.map_filter (\<lambda>k. found_record (resp k)) [seq st]"
  by (cases "found_record (resp (seq st))")
     (simp_all add: loop_body_found loop_body_empty)

lemma seq_scan_loop_ge: "seq st \<le> seq (scan_loop up sc lc yr resp st)"
proof (induction up sc lc yr resp st rule: scan_loop.induct)
  case (1 up sc lc yr resp st)
  show ?case
  proof (cases "loop_cond st")
    case True
    with 1 [OF True] show ?thesis by (simp add: scan_loop_step)
  next
    case False
    then show ?thesis by (simp add: scan_loop_stop)
  qed
qed

lemma requested_scan_loop:
  "requested (scan_loop up sc lc yr resp st) =
     requested st @ map (idx up sc lc yr) [seq st ..< seq (scan_loop up sc lc yr resp st)]"
proof (induction up sc lc yr resp st rule: scan_loop.induct)
  case (1 up sc lc yr resp st)
  show ?case
  proof (cases "loop_cond st")
    case True
    have "seq st < seq (scan_loop up sc lc yr resp (loop_body up sc lc yr resp st))"
      using seq_scan_loop_ge [of "loop_body up sc lc yr resp st" up sc lc yr resp] by simp
    with 1 [OF True] True show ?thesis
      by (simp add: scan_loop_step upt_conv_Cons)
  next
    case False
    then show ?thesis by (simp add: scan_loop_stop)
  qed
qed

lemma results_scan_loop:
  "results (scan_loop up sc lc yr resp st) =
     results st @ List.map_filter (\<lambda>k. found_record (resp k)) [seq st ..< seq (scan_loop up sc lc yr resp st)]"
proof (induction up sc lc yr resp st rule: scan_loop.induct)
  case (1 up sc lc yr resp st)
  show ?case
  proof (cases "loop_cond st")
    case True
    have "seq st < seq (scan_loop up sc lc yr resp (loop_body up sc lc yr resp st))"
      using seq_scan_loop_ge [of "loop_body up sc lc yr resp st" up sc lc yr resp] by simp
    with 1 [OF True] True show ?thesis
      by (simp add: scan_loop_step upt_conv_Cons results_loop_body split: option.splits)
  next
    case False
    then show ?thesis by (simp add: scan_loop_stop)
  qed
qed

lemma scan_five_then_empty:
  assumes "\<forall>k. 1 \<le> k \<and> k \<le> 5 \<longrightarrow> is_found (resp k)"
    and "\<forall>k. 5 < k \<longrightarrow> \<not> is_found (resp k)"
  shows "scan_loop up sc lc yr resp scan_init =
           \<lparr>results = List.map_filter (\<lambda>k. found_record (resp k)) [1 ..< 6],
            seq = 26, emptyCount = 20,
            requested = map (idx up sc lc yr) [1 ..< 26]\<rparr>"
proof -
  let ?mid = "scan_init
     \<lparr>requested := requested scan_init @ map (idx up sc lc yr) [seq scan_init ..< seq scan_init + 5],
      results := results scan_init
         @ List.map_filter (\<lambda>k. found_record (resp k)) [seq scan_init ..< seq scan_init + 5],
      emptyCount := 0, seq := seq scan_init + 5\<rparr>"
  have 1: "scan_loop up sc lc yr resp scan_init = scan_loop up sc lc yr resp ?mid"
    using assms(1)
    by (intro found_run) (simp_all add: scan_init_def MAX_CONSECUTIVE_EMPTY_def MAX_STUDENTS_def)
  have 2: "scan_loop up sc lc yr resp ?mid =
     ?mid\<lparr>requested := requested ?mid @ map (idx up sc lc yr) [seq ?mid ..< seq ?mid + 20],
        emptyCount := MAX_CONSECUTIVE_EMPTY, seq := seq ?mid + 20\<rparr>"
    using assms(2)
    by (intro empty_run) (simp_all add: scan_init_def MAX_CONSECUTIVE_EMPTY_def MAX_STUDENTS_def)
  have u: "[1 ..< 6] @ [6 ..< 26] = [1 ..< (26::nat)]"
    using upt_add_eq_append [of 1 6 20] by simp
  have "map (idx up sc lc yr) [1 ..< 6] @ map (idx up sc lc yr) [6 ..< 26] = map (idx up sc lc yr) [1 ..< 26]"
    unfolding map_append [symmetric] u ..
  then show ?thesis
    unfolding 1 2 by (simp add: scan_init_def MAX_CONSECUTIVE_EMPTY_def)
qed

lemma no_streak_run:
  "\<forall>s. 1 \<le> s \<and> s + 19 \<le> 1000 \<longrightarrow> (\<exists>k. s \<le> k \<and> k \<le> s + 19 \<and> is_found (resp k)) \<Longrightarrow>
         1 \<le> seq st \<Longrightarrow> seq st \<le> 1001 \<Longrightarrow> emptyCount st < seq st \<Longrightarrow>
         \<forall>k. seq st - emptyCount st \<le> k \<and> k < seq st \<longrightarrow> \<not> is_found (resp k) \<Longrightarrow>
         seq (scan_loop up sc lc yr resp st) = 1001 \<and> emptyCount (scan_loop up sc lc yr resp st) < 20"
proof (induction up sc lc yr resp st rule: scan_loop.induct)
  case (1 up sc lc yr resp st)
  note H = "1.prems"(1)
  have e: "emptyCount st < 20"
  proof (rule ccontr)
    assume "\<not> emptyCount st < 20"
    then have ge: "20 \<le> emptyCount st" by simp
    let ?s = "seq st - 20"
    have "1 \<le> ?s \<and> ?s + 19 \<le> 1000" using ge "1.prems"(2-4) by arith
    with H obtain k where k: "?s \<le> k" "k \<le> ?s + 19" "is_found (resp k)" by blast
    have "seq st - emptyCount st \<le> k \<and> k < seq st" using k(1,2) ge "1.prems"(2-4) by arith
    with "1.prems" k(3) show False by blast
  qed
  show ?case
  proof (cases "loop_cond st")
    case False
    with e "1.prems" have "seq st = 1001"
      by (simp add: loop_cond_def MAX_CONSECUTIVE_EMPTY_def MAX_STUDENTS_def)
    with False e show ?thesis by (simp add: scan_loop_stop)
  next
    case True
    let ?st' = "loop_body up sc lc yr resp st"
    from True have le: "seq st \<le> 1000" by (simp add: loop_cond_def MAX_STUDENTS_def)
    have "seq (scan_loop up sc lc yr resp ?st') = 1001 \<and> emptyCount (scan_loop up sc lc yr resp ?st') < 20"
    proof (cases "found_record (resp (seq st))")
      case None
      then have b: "?st' = st\<lparr>requested := requested st @ [idx up sc lc yr (seq st)],
          emptyCount := emptyCount st + 1, seq := seq st + 1\<rparr>"
        by (rule loop_body_empty)
      have w: "\<forall>k. seq ?st' - emptyCount ?st' \<le> k \<and> k < seq ?st' \<longrightarrow> \<not> is_found (resp k)"
      proof (intro allI impI)
        fix k assume "seq ?st' - emptyCount ?st' \<le> k \<and> k < seq ?st'"
        then have "k = seq st \<or> (seq st - emptyCount st \<le> k \<and> k < seq st)"
          unfolding b by auto
        then show "\<not> is_found (resp k)"
          using None "1.prems"(5) by (auto simp: is_found_def)
      qed
      show ?thesis
        using "1.prems" le w H
        by (intro "1.IH" [OF True]) (simp_all add: b)
    next
      case (Some d)
      then have b: "?st' = st\<lparr>requested := requested st @ [idx up sc lc yr (seq st)],
          results := results st @ [d], emptyCount := 0, seq := seq st + 1\<rparr>"
        by (rule loop_body_found)
      show ?thesis
        using "1.prems" le H
        by (intro "1.IH" [OF True]) (simp_all add: b)
    qed
    with True show ?thesis by (simp add: scan_loop_step)
  qed
qed

lemma scan_all_empty:
  assumes "\<forall>k. 1 \<le> k \<and> k \<le> 1000 \<longrightarrow> \<not> is_found (resp k)"
  shows "scan_loop up sc lc yr resp scan_init =
           \<lparr>results = [], seq = 21, emptyCount = 20, requested = map (idx up sc lc yr) [1 ..< 21]\<rparr>"
proof -
  have "scan_loop up sc lc yr resp scan_init =
     scan_init\<lparr>requested := requested scan_init @ map (idx up sc lc yr) [seq scan_init ..< seq scan_init + 20],
        emptyCount := MAX_CONSECUTIVE_EMPTY, seq := seq scan_init + 20\<rparr>"
    using assms
    by (intro empty_run) (simp_all add: scan_init_def MAX_CONSECUTIVE_EMPTY_def MAX_STUDENTS_def)
  then show ?thesis
    by (simp add: scan_init_def MAX_CONSECUTIVE_EMPTY_def)
qed

lemma upper_char_idem: "upper_char (upper_char c) = upper_char c"
proof (cases "97 \<le> (of_char c :: nat) \<and> (of_char c :: nat) \<le> 122")
  case True
  then have "(of_char c :: nat) - 32 < 256"
    by arith
  then have m: "((of_char c :: nat) - 32) mod 256 = of_char c - 32"
    by (rule mod_less)
  have n: "\<not> (97 \<le> (of_char c :: nat) - 32 \<and> (of_char c :: nat) - 32 \<le> 122)"
    using True by arith
  have u: "upper_char c = char_of ((of_char c :: nat) - 32)"
    using True by (auto simp: upper_char_def Let_def)
  have "upper_char (char_of ((of_char c :: nat) - 32)) = char_of ((of_char c :: nat) - 32)"
    unfolding upper_char_def Let_def of_char_of m using n by (rule if_not_P)
  then show ?thesis unfolding u .
next
  case False
  then have "upper_char c = c"
    by (auto simp: upper_char_def Let_def)
  then show ?thesis by simp
qed

lemma in_set_map_filter:
  "y \<in> set (List.map_filter f xs) \<Longrightarrow> \<exists>x \<in> set xs. f x = Some y"
  by (induction xs) (auto split: option.splits)

lemma upper_char_ascii: "(of_char c :: nat) < 128 \<Longrightarrow> (of_char (upper_char c) :: nat) < 128"
proof (cases "97 \<le> (of_char c :: nat) \<and> (of_char c :: nat) \<le> 122")
  case True
  then have "(of_char c :: nat) - 32 < 256"
    by arith
  then have m: "((of_char c :: nat) - 32) mod 256 = of_char c - 32"
    by (rule mod_less)
  have u: "upper_char c = char_of ((of_char c :: nat) - 32)"
    using True by (auto simp: upper_char_def Let_def)
  have "(of_char c :: nat) - 32 < 128"
    using True by arith
  then show ?thesis
    unfolding u of_char_of m .
next
  case False
  then have "upper_char c = c"
    by (auto simp: upper_char_def Let_def)
  then show "(of_char c :: nat) < 128 \<Longrightarrow> (of_char (upper_char c) :: nat) < 128"
    by simp
qed

lemma is_ascii_map_upper: "is_ascii s \<Longrightarrow> is_ascii (map upper_char s)"
  by (simp add: is_ascii_def list_all_iff upper_char_ascii)

lemma toUpperCase_ascii: "is_ascii s \<Longrightarrow> toUpperCase up s = map upper_char s"
  by (simp add: toUpperCase_def)

lemma toUpperCase_idem: "is_ascii s \<Longrightarrow> toUpperCase up (toUpperCase up s) = toUpperCase up s"
  by (simp add: toUpperCase_def is_ascii_map_upper upper_char_idem)

lemma String_nat_digits:
  "n < 10 \<Longrightarrow> String_nat n = [digit_char n]"
  "10 \<le> n \<Longrightarrow> n < 100 \<Longrightarrow> String_nat n = [digit_char (n div 10), digit_char (n mod 10)]"
  "100 \<le> n \<Longrightarrow> n < 1000 \<Longrightarrow>
     String_nat n = [digit_char (n div 100), digit_char (n div 10 mod 10), digit_char (n mod 10)]"
proof -
  show 1: "\<And>n. n < 10 \<Longrightarrow> String_nat n = [digit_char n]"
    by (subst String_nat.simps) simp
  show 2: "\<And>n. 10 \<le> n \<Longrightarrow> n < 100 \<Longrightarrow> String_nat n = [digit_char (n div 10), digit_char (n mod 10)]"
    by (subst String_nat.simps) (simp add: 1)
  show "100 \<le> n \<Longrightarrow> n < 1000 \<Longrightarrow>
     String_nat n = [digit_char (n div 100), digit_char (n div 10 mod 10), digit_char (n mod 10)]"
    by (subst String_nat.simps) (simp add: 2 div_mult2_eq [symmetric])
qed

lemma seqStr_three_digits:
  assumes "n < 1000"
  shows "seqStr n = [digit_char (n div 100), digit_char (n div 10 mod 10), digit_char (n mod 10)]"
proof -
  consider "n < 10" | "10 \<le> n" "n < 100" | "100 \<le> n" "n < 1000"
    using assms by linarith
  then show ?thesis
  proof cases
    case 1
    then show ?thesis
      by (simp add: seqStr_def padStart_def String_nat_digits digit_char_def numeral_3_eq_3)
  next
    case 2
    then show ?thesis
      by (simp add: seqStr_def padStart_def String_nat_digits digit_char_def)
  next
    case 3
    then show ?thesis
      by (simp add: seqStr_def padStart_def String_nat_digits)
  qed
qed

section \<open>Sorting, subject columns and CSV cells\<close>

lemma insert_cmp_insort:
  "insert_cmp compareFn x xs = insort_key (\<lambda>r. - percentOrZero r) x xs"
  by (induction xs) (simp_all add: compareFn_def)

lemma array_sort_sort_key:
  "array_sort compareFn xs = sort_key (\<lambda>r. - percentOrZero r) xs"
proof -
  have "insert_cmp compareFn = insort_key (\<lambda>r. - percentOrZero r)"
    by (intro ext) (rule insert_cmp_insort)
  then show ?thesis
    by (simp add: array_sort_def sort_key_def)
qed

lemma array_sort_descending:
  "sorted_wrt (\<lambda>a b. percentOrZero b \<le> percentOrZero a) (array_sort compareFn rs)"
proof -
  have "sorted (map (\<lambda>r. - percentOrZero r) (array_sort compareFn rs))"
    unfolding array_sort_sort_key by (rule sorted_sort_key)
  then show ?thesis
    by (simp add: sorted_map)
qed

lemma array_sort_mset: "mset (array_sort compareFn rs) = mset rs"
  unfolding array_sort_sort_key by simp

lemma array_sort_stable:
  "filter (\<lambda>r. percentOrZero r = w) (array_sort compareFn rs) = filter (\<lambda>r. percentOrZero r = w) rs"
proof -
  have "filter (\<lambda>r. - percentOrZero r = - w) (sort_key (\<lambda>r. - percentOrZero r) rs)
      = filter (\<lambda>r. - percentOrZero r = - w) rs"
    by (rule sort_key_stable)
  then show ?thesis
    unfolding array_sort_sort_key by simp
qed

lemma fetchClassResults_classResults:
  assumes "schoolCode c \<noteq> []" "levelCode c \<noteq> []" "examYear c \<noteq> []"
  shows "classResults (fst (fetchClassResults up resp c)) =
           array_sort compareFn
             (results (scan_loop up (schoolCode c) (levelCode c) (examYear c) resp scan_init))"
  using assms by (simp add: fetchClassResults_def Let_def split: list.splits)

lemma set_first_seen: "set (first_seen xs) = set xs"
  by (induction xs rule: first_seen.induct) auto

lemma distinct_first_seen: "distinct (first_seen xs)"
  by (induction xs rule: first_seen.induct) (auto simp: set_first_seen)

lemma fold_set_add:
  "fold (\<lambda>x acc. set_add acc x) xs acc = acc @ first_seen (filter (\<lambda>x. x \<notin> set acc) xs)"
proof (induction xs arbitrary: acc)
  case Nil
  then show ?case by simp
next
  case (Cons x xs)
  show ?case
  proof (cases "x \<in> set acc")
    case True
    then have "set_add acc x = acc" by (simp add: set_add_def)
    with True show ?thesis by (simp add: Cons.IH)
  next
    case False
    then have a: "set_add acc x = acc @ [x]" by (simp add: set_add_def)
    have "removeAll x (filter (\<lambda>y. y \<notin> set acc) xs)
            = filter (\<lambda>y. y \<notin> set (acc @ [x])) xs"
      by (induction xs) auto
    with False show ?thesis
      by (simp add: Cons.IH a)
  qed
qed

lemma add_marks_fold:
  "add_marks acc ms =
     fold (\<lambda>x acc. set_add acc x) (filter (\<lambda>n. n \<noteq> []) (map subjectName ms)) acc"
  unfolding add_marks_def by (induction ms arbitrary: acc) simp_all

lemma fold_students:
  "fold (\<lambda>st acc. case rawMark st of Some ms \<Rightarrow> add_marks acc ms | None \<Rightarrow> acc) rs acc
     = fold (\<lambda>x acc. set_add acc x) (subject_names rs) acc"
  by (induction rs arbitrary: acc) (simp_all add: subject_names_def add_marks_fold split: option.splits)

lemma classSubjects_first_seen: "classSubjects rs = first_seen (subject_names rs)"
proof (cases rs)
  case Nil
  then show ?thesis by (simp add: classSubjects_def subject_names_def)
next
  case (Cons r rs')
  then have "classSubjects rs =
      fold (\<lambda>st acc. case rawMark st of Some ms \<Rightarrow> add_marks acc ms | None \<Rightarrow> acc) rs []"
    unfolding classSubjects_def by simp
  then show ?thesis
    unfolding fold_students fold_set_add by simp
qed

lemma set_subject_names:
  "set (subject_names rs) =
     {n. n \<noteq> [] \<and> (\<exists>st \<in> set rs. \<exists>ms. rawMark st = Some ms \<and> n \<in> subjectName ` set ms)}"
proof (intro set_eqI iffI)
  fix n assume "n \<in> set (subject_names rs)"
  then obtain st where st: "st \<in> set rs"
      "n \<in> set (case rawMark st of None \<Rightarrow> [] | Some ms \<Rightarrow> filter (\<lambda>n. n \<noteq> []) (map subjectName ms))"
    by (auto simp: subject_names_def)
  then obtain ms where "rawMark st = Some ms" "n \<noteq> []" "n \<in> subjectName ` set ms"
    by (cases "rawMark st") auto
  with st(1) show "n \<in> {n. n \<noteq> [] \<and> (\<exists>st \<in> set rs. \<exists>ms. rawMark st = Some ms \<and> n \<in> subjectName ` set ms)}"
    by blast
next
  fix n assume "n \<in> {n. n \<noteq> [] \<and> (\<exists>st \<in> set rs. \<exists>ms. rawMark st = Some ms \<and> n \<in> subjectName ` set ms)}"
  then obtain st ms where "n \<noteq> []" "st \<in> set rs" "rawMark st = Some ms" "n \<in> subjectName ` set ms"
    by blast
  then have "n \<in> set (case rawMark st of None \<Rightarrow> []
                         | Some ms \<Rightarrow> filter (\<lambda>n. n \<noteq> []) (map subjectName ms))"
    by auto
  with \<open>st \<in> set rs\<close> show "n \<in> set (subject_names rs)"
    unfolding subject_names_def by auto
qed

lemma find_first_match:
  "\<forall>p \<in> set pre. \<not> P p \<Longrightarrow> P m \<Longrightarrow> find P (pre @ m # post) = Some m"
  by (induction pre) simp_all

lemma markCell_first_match:
  assumes "rawMark st = Some (pre @ m # post)"
    and "\<forall>p \<in> set pre. subjectName p \<noteq> subj"
    and "subjectName m = subj"
  shows "markCell ts st subj =
           (case markPercent m of Some p \<Rightarrow> toFixed1 ts p @ ''%'' | None \<Rightarrow> ''-'')
           @ '' ('' @ (case letterGrade m of Some g \<Rightarrow> g | None \<Rightarrow> ''-'') @ '')''"
proof -
  have "find (\<lambda>m. subjectName m = subj) (pre @ m # post) = Some m"
    using assms(2,3) by (intro find_first_match) simp_all
  then show ?thesis
    using assms(1) by (simp add: markCell_def Let_def)
qed

lemma markCell_absent:
  assumes "\<forall>ms. rawMark st = Some ms \<longrightarrow> (\<forall>m \<in> set ms. subjectName m \<noteq> subj)"
  shows "markCell ts st subj = ''-''"
proof (cases "rawMark st")
  case None
  then show ?thesis by (simp add: markCell_def)
next
  case (Some ms)
  with assms have "find (\<lambda>m. subjectName m = subj) ms = None"
    by (simp add: find_None_iff)
  with Some show ?thesis by (simp add: markCell_def)
qed

lemma toFixed1_78: "toFixed1 ts 78 = ''78.0''"
proof -
  have f: "\<lfloor>(1561::rat) / 2\<rfloor> = 780"
    by (rule floor_unique) simp_all
  have s: "String_nat 780 = ''780''"
    by (simp add: String_nat_digits digit_char_def)
  show ?thesis
    by (simp add: toFixed1_def Let_def f s)
qed

lemma classSubjects_single:
  "rawMark s = Some [m] \<Longrightarrow> subjectName m \<noteq> [] \<Longrightarrow> classSubjects [s] = [subjectName m]"
  by (simp add: classSubjects_def add_marks_def set_add_def)

lemma markCell_single:
  "rawMark s = Some [m] \<Longrightarrow> markPercent m = Some 78 \<Longrightarrow> letterGrade m = Some ''A'' \<Longrightarrow>
   markCell ts s (subjectName m) = ''78.0% (A)''"
  by (simp add: markCell_def toFixed1_78)

section \<open>Properties stated by the specification\<close>

text \<open>
  C1. The scan loop terminates: from the initial counters it runs the body some \<open>n \<le> 1000\<close>
  times, the loop condition (fewer than 20 consecutive empties and counter at most 1000)
  holding before each of these passes and failing right after the last, where the
  empty counter is 20 or the sequence counter is 1001. One request is issued per pass,
  so at most 1000 requests are issued whatever the responses are.
\<close>

theorem scan_stops_within_bounds:
  "\<exists>n\<le>1000.
     scan_loop up sc lc yr resp scan_init = (loop_body up sc lc yr resp ^^ n) scan_init
     \<and> (\<forall>k<n. emptyCount ((loop_body up sc lc yr resp ^^ k) scan_init) < 20
              \<and> seq ((loop_body up sc lc yr resp ^^ k) scan_init) \<le> 1000)
     \<and> (emptyCount (scan_loop up sc lc yr resp scan_init) = 20
        \<or> seq (scan_loop up sc lc yr resp scan_init) = 1001)
     \<and> length (requested (scan_loop up sc lc yr resp scan_init)) = n
     \<and> length (requested (scan_loop up sc lc yr resp scan_init)) \<le> 1000"
proof -
  let ?b = "loop_body up sc lc yr resp"
  obtain n where
    n: "scan_loop up sc lc yr resp scan_init = (?b ^^ n) scan_init"
       "\<forall>k<n. loop_cond ((?b ^^ k) scan_init)"
       "\<not> loop_cond ((?b ^^ n) scan_init)"
    using scan_loop_iterates by blast
  have le: "n \<le> 1000"
  proof (cases n)
    case 0
    then show ?thesis by simp
  next
    case (Suc m)
    with n(2) have "loop_cond ((?b ^^ m) scan_init)" by simp
    then show ?thesis
      using Suc by (simp add: loop_cond_def seq_funpow scan_init_def MAX_STUDENTS_def)
  qed
  have e: "emptyCount ((?b ^^ n) scan_init) \<le> MAX_CONSECUTIVE_EMPTY"
    using n(2) by (intro emptyCount_funpow_le) (simp_all add: scan_init_def)
  have fin: "emptyCount ((?b ^^ n) scan_init) = 20 \<or> seq ((?b ^^ n) scan_init) = 1001"
    using n(3) e le
    by (auto simp: loop_cond_def seq_funpow scan_init_def MAX_STUDENTS_def MAX_CONSECUTIVE_EMPTY_def)
  have len: "length (requested ((?b ^^ n) scan_init)) = n"
    by (simp add: requested_funpow scan_init_def)
  have run: "\<forall>k<n. emptyCount ((?b ^^ k) scan_init) < 20 \<and> seq ((?b ^^ k) scan_init) \<le> 1000"
    using n(2) by (simp add: loop_cond_def MAX_STUDENTS_def MAX_CONSECUTIVE_EMPTY_def)
  show ?thesis
    using n(1) le fin len run by (intro exI [of _ n]) simp
qed

theorem scan_stops_within_bounds_witness:
  "\<exists>n\<le>1000.
     scan_loop identity_upper ''123456'' ''olc'' ''2025'' never_ok scan_init
       = (loop_body identity_upper ''123456'' ''olc'' ''2025'' never_ok ^^ n) scan_init
     \<and> (\<forall>k<n. emptyCount ((loop_body identity_upper ''123456'' ''olc'' ''2025'' never_ok ^^ k) scan_init) < 20
              \<and> seq ((loop_body identity_upper ''123456'' ''olc'' ''2025'' never_ok ^^ k) scan_init) \<le> 1000)
     \<and> (emptyCount (scan_loop identity_upper ''123456'' ''olc'' ''2025'' never_ok scan_init) = 20
        \<or> seq (scan_loop identity_upper ''123456'' ''olc'' ''2025'' never_ok scan_init) = 1001)
     \<and> length (requested (scan_loop identity_upper ''123456'' ''olc'' ''2025'' never_ok scan_init)) = n
     \<and> length (requested (scan_loop identity_upper ''123456'' ''olc'' ''2025'' never_ok scan_init)) \<le> 1000"
  using scan_stops_within_bounds [of identity_upper "''123456''" "''olc''" "''2025''" never_ok] .

text \<open>
  C2. The claim that a scan whose probes are all empty runs to sequence 1000 with 1000
  requests fails: when every request gets a non-success status, the empty counter reaches
  its ceiling after 20 requests and the scan stops there.
\<close>

theorem never_ok_counterexample:
  "length (requested (scan_loop identity_upper ''123456'' ''olc'' ''2025'' never_ok scan_init)) = 20
   \<and> length (requested (scan_loop identity_upper ''123456'' ''olc'' ''2025'' never_ok scan_init)) \<noteq> 1000
   \<and> emptyCount (scan_loop identity_upper ''123456'' ''olc'' ''2025'' never_ok scan_init) = MAX_CONSECUTIVE_EMPTY
   \<and> seq (scan_loop identity_upper ''123456'' ''olc'' ''2025'' never_ok scan_init) = 21"
proof -
  have "\<forall>k. 1 \<le> k \<and> k \<le> 1000 \<longrightarrow> \<not> is_found (never_ok k)"
    by (simp add: never_ok_def is_found_def found_record_def)
  then have "scan_loop identity_upper ''123456'' ''olc'' ''2025'' never_ok scan_init =
      \<lparr>results = [], seq = 21, emptyCount = 20,
       requested = map (idx identity_upper ''123456'' ''olc'' ''2025'') [1 ..< 21]\<rparr>"
    by (rule scan_all_empty)
  then show ?thesis by (simp add: MAX_CONSECUTIVE_EMPTY_def)
qed

text \<open>
  C2, as amended. If every probe up to sequence 1000 is empty, the scan stops on the
  empty-streak ceiling with the counter at 21, having requested exactly the index numbers
  of sequences 1 to 20. The scan ends at sequence 1000 without reaching the ceiling,
  having made exactly 1000 requests, when every 20 consecutive sequences within 1 to 1000
  contain a found probe.
\<close>

theorem all_empty_stops_at_twenty:
  "((\<forall>k. 1 \<le> k \<and> k \<le> 1000 \<longrightarrow> \<not> is_found (resp k)) \<longrightarrow>
      scan_loop up sc lc yr resp scan_init =
        \<lparr>results = [], seq = 21, emptyCount = 20, requested = map (idx up sc lc yr) [1 ..< 21]\<rparr>
      \<and> length (requested (scan_loop up sc lc yr resp scan_init)) = 20)
   \<and> ((\<forall>s. 1 \<le> s \<and> s + 19 \<le> 1000 \<longrightarrow> (\<exists>k. s \<le> k \<and> k \<le> s + 19 \<and> is_found (resp k))) \<longrightarrow>
      seq (scan_loop up sc lc yr resp scan_init) = 1001
      \<and> emptyCount (scan_loop up sc lc yr resp scan_init) < 20
      \<and> length (requested (scan_loop up sc lc yr resp scan_init)) = 1000
      \<and> last (requested (scan_loop up sc lc yr resp scan_init)) = idx up sc lc yr 1000)"
proof (intro conjI impI)
  assume a: "\<forall>k. 1 \<le> k \<and> k \<le> 1000 \<longrightarrow> \<not> is_found (resp k)"
  show eq: "scan_loop up sc lc yr resp scan_init =
        \<lparr>results = [], seq = 21, emptyCount = 20, requested = map (idx up sc lc yr) [1 ..< 21]\<rparr>"
    using a by (rule scan_all_empty)
  show "length (requested (scan_loop up sc lc yr resp scan_init)) = 20"
    unfolding eq by simp
next
  assume H: "\<forall>s. 1 \<le> s \<and> s + 19 \<le> 1000 \<longrightarrow> (\<exists>k. s \<le> k \<and> k \<le> s + 19 \<and> is_found (resp k))"
  have r: "seq (scan_loop up sc lc yr resp scan_init) = 1001
        \<and> emptyCount (scan_loop up sc lc yr resp scan_init) < 20"
    using H by (intro no_streak_run) (simp_all add: scan_init_def)
  then show "seq (scan_loop up sc lc yr resp scan_init) = 1001"
    and "emptyCount (scan_loop up sc lc yr resp scan_init) < 20" by simp_all
  have q: "requested (scan_loop up sc lc yr resp scan_init) = map (idx up sc lc yr) [1 ..< 1001]"
    using requested_scan_loop [of up sc lc yr resp scan_init] r by (simp add: scan_init_def)
  show "length (requested (scan_loop up sc lc yr resp scan_init)) = 1000"
    unfolding q by simp
  have "[1 ..< 1001] = [1 ..< 1000] @ [1000::nat]"
    using upt_Suc_append [of 1 1000] by simp
  then show "last (requested (scan_loop up sc lc yr resp scan_init)) = idx up sc lc yr 1000"
    unfolding q by simp
qed

theorem all_empty_stops_at_twenty_witness:
  "(scan_loop identity_upper ''123456'' ''olc'' ''2025'' never_ok scan_init =
        \<lparr>results = [], seq = 21, emptyCount = 20,
         requested = map (idx identity_upper ''123456'' ''olc'' ''2025'') [1 ..< 21]\<rparr>
      \<and> length (requested (scan_loop identity_upper ''123456'' ''olc'' ''2025'' never_ok scan_init)) = 20)
   \<and> (seq (scan_loop identity_upper ''123456'' ''olc'' ''2025'' (always_found student_a) scan_init) = 1001
      \<and> emptyCount (scan_loop identity_upper ''123456'' ''olc'' ''2025'' (always_found student_a) scan_init) < 20
      \<and> length (requested (scan_loop identity_upper ''123456'' ''olc'' ''2025'' (always_found student_a) scan_init)) = 1000
      \<and> last (requested (scan_loop identity_upper ''123456'' ''olc'' ''2025'' (always_found student_a) scan_init))
          = idx identity_upper ''123456'' ''olc'' ''2025'' 1000)"
proof -
  have e: "\<forall>k. 1 \<le> k \<and> k \<le> 1000 \<longrightarrow> \<not> is_found (never_ok k)"
    by (simp add: never_ok_def is_found_def found_record_def)
  have f: "\<forall>s. 1 \<le> s \<and> s + 19 \<le> 1000 \<longrightarrow>
             (\<exists>k. s \<le> k \<and> k \<le> s + 19 \<and> is_found (always_found student_a k))"
    by (auto simp: always_found_def is_found_def found_record_def student_a_def)
  show ?thesis
    using all_empty_stops_at_twenty [of never_ok identity_upper "''123456''" "''olc''" "''2025''"]
      all_empty_stops_at_twenty [of "always_found student_a" identity_upper "''123456''" "''olc''" "''2025''"] e f
    by blast
qed

text \<open>
  C3. If the probes at sequences 1 to 5 are found and every later probe is empty, the
  scan ends with the counter at 26 and the empty counter at 20: it has requested exactly
  the index numbers of sequences 1 to 25, the last one being that of sequence 25, and
  holds the five found records.
\<close>

theorem five_found_then_empty:
  assumes "\<forall>k. 1 \<le> k \<and> k \<le> 5 \<longrightarrow> is_found (resp k)"
    and "\<forall>k. 5 < k \<longrightarrow> \<not> is_found (resp k)"
  shows "scan_loop up sc lc yr resp scan_init =
           \<lparr>results = List.map_filter (\<lambda>k. found_record (resp k)) [1 ..< 6],
            seq = 26, emptyCount = 20,
            requested = map (idx up sc lc yr) [1 ..< 26]\<rparr>
         \<and> length (results (scan_loop up sc lc yr resp scan_init)) = 5
         \<and> length (requested (scan_loop up sc lc yr resp scan_init)) = 25
         \<and> last (requested (scan_loop up sc lc yr resp scan_init)) = idx up sc lc yr 25"
proof -
  have eq: "scan_loop up sc lc yr resp scan_init =
           \<lparr>results = List.map_filter (\<lambda>k. found_record (resp k)) [1 ..< 6],
            seq = 26, emptyCount = 20,
            requested = map (idx up sc lc yr) [1 ..< 26]\<rparr>"
    using assms by (rule scan_five_then_empty)
  have "\<forall>k \<in> set [1 ..< 6]. found_record (resp k) \<noteq> None"
    using assms(1) by (simp add: is_found_def)
  then have "length (List.map_filter (\<lambda>k. found_record (resp k)) [1 ..< 6]) = length [1 ..< (6::nat)]"
    unfolding List.map_filter_def
    by (simp only: length_map) (metis (mono_tags, lifting) filter_True)
  then have r: "length (results (scan_loop up sc lc yr resp scan_init)) = 5"
    unfolding eq by simp
  have q: "length (requested (scan_loop up sc lc yr resp scan_init)) = 25"
    unfolding eq by simp
  have "[1 ..< 26] = [1 ..< 25] @ [25::nat]"
    using upt_Suc_append [of 1 25] by simp
  then have l: "last (requested (scan_loop up sc lc yr resp scan_init)) = idx up sc lc yr 25"
    unfolding eq by simp
  from eq r q l show ?thesis by blast
qed

theorem five_found_then_empty_witness:
  "scan_loop identity_upper ''123456'' ''olc'' ''2025'' (five_then_none student_a) scan_init =
     \<lparr>results = List.map_filter (\<lambda>k. found_record (five_then_none student_a k)) [1 ..< 6],
      seq = 26, emptyCount = 20,
      requested = map (idx identity_upper ''123456'' ''olc'' ''2025'') [1 ..< 26]\<rparr>
   \<and> length (results (scan_loop identity_upper ''123456'' ''olc'' ''2025'' (five_then_none student_a) scan_init)) = 5
   \<and> length (requested (scan_loop identity_upper ''123456'' ''olc'' ''2025'' (five_then_none student_a) scan_init)) = 25
   \<and> last (requested (scan_loop identity_upper ''123456'' ''olc'' ''2025'' (five_then_none student_a) scan_init))
       = idx identity_upper ''123456'' ''olc'' ''2025'' 25"
proof -
  have f: "\<forall>k. 1 \<le> k \<and> k \<le> 5 \<longrightarrow> is_found (five_then_none student_a k)"
    by (simp add: five_then_none_def is_found_def found_record_def student_a_def)
  have e: "\<forall>k. 5 < k \<longrightarrow> \<not> is_found (five_then_none student_a k)"
    by (simp add: five_then_none_def is_found_def found_record_def)
  show ?thesis
    using five_found_then_empty [OF f e] .
qed

text \<open>
  C4. The index number built in the loop is a function of the school code, level code,
  exam year and sequence number (and of the upper-casing of the runtime) alone: the
  school code, the upper-cased level code, the sequence number padded with zeros to
  three characters (its hundreds, tens and units digits when below 1000) and the exam
  year, concatenated. On an ASCII level code upper-casing replaces a to z by A to Z and
  leaves the rest, and doing it beforehand changes nothing; on any other level code it
  is the Unicode mapping of the runtime. In particular \<open>("123456", "olc", "2025", 7)\<close>
  gives \<open>123456OLC0072025\<close> and sequence 123 gives \<open>123456OLC1232025\<close>, whatever that
  mapping is.
\<close>

theorem idx_concatenation:
  "idx up sc lc yr n = sc @ toUpperCase up lc @ seqStr n @ yr
   \<and> seqStr n = replicate (3 - length (String_nat n)) (CHR ''0'') @ String_nat n
   \<and> (n < 1000 \<longrightarrow>
        seqStr n = [digit_char (n div 100), digit_char (n div 10 mod 10), digit_char (n mod 10)])
   \<and> (is_ascii lc \<longrightarrow>
        toUpperCase up lc = map upper_char lc
        \<and> idx up sc (toUpperCase up lc) yr n = idx up sc lc yr n)
   \<and> (\<not> is_ascii lc \<longrightarrow> toUpperCase up lc = up lc)
   \<and> idx up ''123456'' ''olc'' ''2025'' 7 = ''123456OLC0072025''
   \<and> idx up ''123456'' ''olc'' ''2025'' 123 = ''123456OLC1232025''"
proof -
  have "map upper_char ''olc'' = ''OLC''"
    by code_simp
  moreover have "is_ascii ''olc''"
    by (simp add: is_ascii_def)
  ultimately have o: "toUpperCase up ''olc'' = ''OLC''"
    by (simp only: toUpperCase_def if_True)
  have s7: "seqStr 7 = ''007''" and s123: "seqStr 123 = ''123''"
    by (simp_all add: seqStr_three_digits digit_char_def)
  have a: "idx up ''123456'' ''olc'' ''2025'' 7 = ''123456OLC0072025''"
    by (simp add: idx_def o s7)
  have b: "idx up ''123456'' ''olc'' ''2025'' 123 = ''123456OLC1232025''"
    by (simp add: idx_def o s123)
  have c: "seqStr n = replicate (3 - length (String_nat n)) (CHR ''0'') @ String_nat n"
    by (simp add: seqStr_def padStart_def)
  have d: "is_ascii lc \<longrightarrow>
        toUpperCase up lc = map upper_char lc
        \<and> idx up sc (toUpperCase up lc) yr n = idx up sc lc yr n"
  proof
    assume asc: "is_ascii lc"
    then have 1: "toUpperCase up lc = map upper_char lc"
      by (rule toUpperCase_ascii)
    have "toUpperCase up (toUpperCase up lc) = toUpperCase up lc"
      using asc by (rule toUpperCase_idem)
    then have "idx up sc (toUpperCase up lc) yr n = idx up sc lc yr n"
      unfolding idx_def by simp
    with 1 show "toUpperCase up lc = map upper_char lc
        \<and> idx up sc (toUpperCase up lc) yr n = idx up sc lc yr n" ..
  qed
  have e: "\<not> is_ascii lc \<longrightarrow> toUpperCase up lc = up lc"
    by (simp add: toUpperCase_def)
  have f: "n < 1000 \<longrightarrow>
        seqStr n = [digit_char (n div 100), digit_char (n div 10 mod 10), digit_char (n mod 10)]"
    by (simp add: seqStr_three_digits)
  have g: "idx up sc lc yr n = sc @ toUpperCase up lc @ seqStr n @ yr"
    by (simp add: idx_def)
  from a b c d e f g show ?thesis by (intro conjI)
qed

theorem idx_concatenation_witness:
  "idx identity_upper ''123456'' ''olc'' ''2025'' 7
     = ''123456'' @ toUpperCase identity_upper ''olc'' @ seqStr 7 @ ''2025''
   \<and> seqStr 7 = replicate (3 - length (String_nat 7)) (CHR ''0'') @ String_nat 7
   \<and> (7 < (1000::nat))
   \<and> seqStr 7 = [digit_char (7 div 100), digit_char (7 div 10 mod 10), digit_char (7 mod 10)]
   \<and> is_ascii ''olc''
   \<and> toUpperCase identity_upper ''olc'' = map upper_char ''olc''
   \<and> idx identity_upper ''123456'' (toUpperCase identity_upper ''olc'') ''2025'' 7
       = idx identity_upper ''123456'' ''olc'' ''2025'' 7
   \<and> is_ascii [CHR 0xC3, CHR 0xA9] = False
   \<and> toUpperCase identity_upper [CHR 0xC3, CHR 0xA9] = identity_upper [CHR 0xC3, CHR 0xA9]
   \<and> idx identity_upper ''123456'' ''olc'' ''2025'' 7 = ''123456OLC0072025''
   \<and> idx identity_upper ''123456'' ''olc'' ''2025'' 123 = ''123456OLC1232025''"
proof -
  have h: "7 < (1000::nat)" by simp
  have k: "is_ascii ''olc''"
    by (simp add: is_ascii_def)
  have l: "\<not> is_ascii [CHR 0xC3, CHR 0xA9]"
    by (simp add: is_ascii_def)
  from idx_concatenation
         [where up = identity_upper and sc = "''123456''" and lc = "''olc''" and yr = "''2025''"
            and n = 7]
       idx_concatenation [where up = identity_upper and lc = "[CHR 0xC3, CHR 0xA9]"]
       h k l
  show ?thesis
    by blast
qed

text \<open>
  C5. One pass of the loop body: a found response (a decoded payload with a non-empty
  \<open>studentNames\<close>) appends the record and resets the empty counter to 0; a rejected
  fetch, a non-success status, an undecodable body, a falsy payload or a payload without
  a name leaves the results alone and adds 1 to the empty counter. In every case the
  sequence counter grows by exactly 1, one request is logged, and while the loop
  condition holds the scan goes on from the state the pass produced.
\<close>

theorem probe_outcomes:
  "(resp (seq st) = Data (Some d) \<and> studentNames d \<noteq> [] \<longrightarrow>
      results (loop_body up sc lc yr resp st) = results st @ [d]
      \<and> emptyCount (loop_body up sc lc yr resp st) = 0)
   \<and> (resp (seq st) = FetchError \<or> resp (seq st) = NotOk \<or> resp (seq st) = JsonError
        \<or> resp (seq st) = Data None
        \<or> (\<exists>e. resp (seq st) = Data (Some e) \<and> studentNames e = []) \<longrightarrow>
      results (loop_body up sc lc yr resp st) = results st
      \<and> emptyCount (loop_body up sc lc yr resp st) = emptyCount st + 1)
   \<and> seq (loop_body up sc lc yr resp st) = seq st + 1
   \<and> requested (loop_body up sc lc yr resp st) = requested st @ [idx up sc lc yr (seq st)]
   \<and> (loop_cond st \<longrightarrow>
        scan_loop up sc lc yr resp st = scan_loop up sc lc yr resp (loop_body up sc lc yr resp st))"
proof (intro conjI impI)
  assume "resp (seq st) = Data (Some d) \<and> studentNames d \<noteq> []"
  then have "found_record (resp (seq st)) = Some d"
    by (simp add: found_record_def)
  then have b: "loop_body up sc lc yr resp st =
     st\<lparr>requested := requested st @ [idx up sc lc yr (seq st)],
        results := results st @ [d], emptyCount := 0, seq := seq st + 1\<rparr>"
    by (rule loop_body_found)
  show "results (loop_body up sc lc yr resp st) = results st @ [d]"
    and "emptyCount (loop_body up sc lc yr resp st) = 0"
    unfolding b by simp_all
next
  assume "resp (seq st) = FetchError \<or> resp (seq st) = NotOk \<or> resp (seq st) = JsonError
        \<or> resp (seq st) = Data None
        \<or> (\<exists>e. resp (seq st) = Data (Some e) \<and> studentNames e = [])"
  then have "found_record (resp (seq st)) = None"
    by (auto simp: found_record_def)
  then have b: "loop_body up sc lc yr resp st =
     st\<lparr>requested := requested st @ [idx up sc lc yr (seq st)],
        emptyCount := emptyCount st + 1, seq := seq st + 1\<rparr>"
    by (rule loop_body_empty)
  show "results (loop_body up sc lc yr resp st) = results st"
    and "emptyCount (loop_body up sc lc yr resp st) = emptyCount st + 1"
    unfolding b by simp_all
next
  show "seq (loop_body up sc lc yr resp st) = seq st + 1" by simp
  show "requested (loop_body up sc lc yr resp st) = requested st @ [idx up sc lc yr (seq st)]" by simp
next
  assume "loop_cond st"
  then show "scan_loop up sc lc yr resp st = scan_loop up sc lc yr resp (loop_body up sc lc yr resp st)"
    by (rule scan_loop_step)
qed

theorem probe_outcomes_witness:
  "(results (loop_body identity_upper ''123456'' ''olc'' ''2025'' (five_then_none student_a) scan_init) = [student_a]
      \<and> emptyCount (loop_body identity_upper ''123456'' ''olc'' ''2025'' (five_then_none student_a) scan_init) = 0
      \<and> seq (loop_body identity_upper ''123456'' ''olc'' ''2025'' (five_then_none student_a) scan_init) = 2
      \<and> scan_loop identity_upper ''123456'' ''olc'' ''2025'' (five_then_none student_a) scan_init
          = scan_loop identity_upper ''123456'' ''olc'' ''2025'' (five_then_none student_a)
              (loop_body identity_upper ''123456'' ''olc'' ''2025'' (five_then_none student_a) scan_init))
   \<and> (results (loop_body identity_upper ''123456'' ''olc'' ''2025'' never_ok scan_init) = []
      \<and> emptyCount (loop_body identity_upper ''123456'' ''olc'' ''2025'' never_ok scan_init) = 1
      \<and> seq (loop_body identity_upper ''123456'' ''olc'' ''2025'' never_ok scan_init) = 2
      \<and> requested (loop_body identity_upper ''123456'' ''olc'' ''2025'' never_ok scan_init) = [''123456OLC0012025''])"
proof -
  have f: "five_then_none student_a (seq scan_init) = Data (Some student_a) \<and> studentNames student_a \<noteq> []"
    by (simp add: five_then_none_def scan_init_def student_a_def)
  have c: "loop_cond scan_init"
    by (simp add: loop_cond_def scan_init_def MAX_CONSECUTIVE_EMPTY_def MAX_STUDENTS_def)
  have e: "never_ok (seq scan_init) = NotOk"
    by (simp add: never_ok_def)
  have i: "idx identity_upper ''123456'' ''olc'' ''2025'' 1 = ''123456OLC0012025''"
    by code_simp
  have s: "seq scan_init = 1" "results scan_init = []" "emptyCount scan_init = 0" "requested scan_init = []"
    by (simp_all add: scan_init_def)
  show ?thesis
    using probe_outcomes [of "five_then_none student_a" scan_init student_a identity_upper "''123456''" "''olc''" "''2025''"]
      probe_outcomes [of never_ok scan_init student_a identity_upper "''123456''" "''olc''" "''2025''"]
      f c e i
    by (simp add: s)
qed

text \<open>
  C6. With all three fields given, the class results stored by \<open>fetchClassResults\<close> are
  the records accumulated by the scan, sorted with the comparator of the code. The sorted
  list is in descending order of weighted percent (an absent one counting as 0), is a
  rearrangement of the accumulated records, and keeps records of equal weighted percent in
  their order of discovery. Records with weighted percents 55, 90, 70 come out as
  90, 70, 55.
\<close>

theorem class_results_sorted_descending:
  "(schoolCode c \<noteq> [] \<and> levelCode c \<noteq> [] \<and> examYear c \<noteq> [] \<longrightarrow>
      classResults (fst (fetchClassResults up resp c)) =
        array_sort compareFn
          (results (scan_loop up (schoolCode c) (levelCode c) (examYear c) resp scan_init)))
   \<and> sorted_wrt (\<lambda>a b. percentOrZero b \<le> percentOrZero a) (array_sort compareFn rs)
   \<and> mset (array_sort compareFn rs) = mset rs
   \<and> (\<forall>w. filter (\<lambda>r. percentOrZero r = w) (array_sort compareFn rs)
           = filter (\<lambda>r. percentOrZero r = w) rs)
   \<and> array_sort compareFn
        [r1\<lparr>weightedPercent := JsNumber 55\<rparr>, r2\<lparr>weightedPercent := JsNumber 90\<rparr>,
         r3\<lparr>weightedPercent := JsNumber 70\<rparr>]
       = [r2\<lparr>weightedPercent := JsNumber 90\<rparr>, r3\<lparr>weightedPercent := JsNumber 70\<rparr>,
          r1\<lparr>weightedPercent := JsNumber 55\<rparr>]"
proof -
  have ex: "array_sort compareFn
        [r1\<lparr>weightedPercent := JsNumber 55\<rparr>, r2\<lparr>weightedPercent := JsNumber 90\<rparr>,
         r3\<lparr>weightedPercent := JsNumber 70\<rparr>]
       = [r2\<lparr>weightedPercent := JsNumber 90\<rparr>, r3\<lparr>weightedPercent := JsNumber 70\<rparr>,
          r1\<lparr>weightedPercent := JsNumber 55\<rparr>]"
    by (simp add: array_sort_def compareFn_def percentOrZero_def)
  show ?thesis
    using ex array_sort_descending [of rs] array_sort_mset [of rs] array_sort_stable [of _ rs]
      fetchClassResults_classResults [of c up resp]
    by blast
qed

theorem class_results_sorted_descending_witness:
  "classResults (fst (fetchClassResults identity_upper (five_then_none student_a) component_a)) =
     array_sort compareFn
       (results (scan_loop identity_upper (schoolCode component_a) (levelCode component_a) (examYear component_a)
          (five_then_none student_a) scan_init))
   \<and> sorted_wrt (\<lambda>a b. percentOrZero b \<le> percentOrZero a)
        (array_sort compareFn [student_a, student_a\<lparr>weightedPercent := JsNumber 90\<rparr>])
   \<and> mset (array_sort compareFn [student_a, student_a\<lparr>weightedPercent := JsNumber 90\<rparr>])
       = mset [student_a, student_a\<lparr>weightedPercent := JsNumber 90\<rparr>]
   \<and> (\<forall>w. filter (\<lambda>r. percentOrZero r = w)
             (array_sort compareFn [student_a, student_a\<lparr>weightedPercent := JsNumber 90\<rparr>])
           = filter (\<lambda>r. percentOrZero r = w) [student_a, student_a\<lparr>weightedPercent := JsNumber 90\<rparr>])
   \<and> array_sort compareFn
        [student_a\<lparr>weightedPercent := JsNumber 55\<rparr>, student_a\<lparr>weightedPercent := JsNumber 90\<rparr>,
         student_a\<lparr>weightedPercent := JsNumber 70\<rparr>]
       = [student_a\<lparr>weightedPercent := JsNumber 90\<rparr>, student_a\<lparr>weightedPercent := JsNumber 70\<rparr>,
          student_a\<lparr>weightedPercent := JsNumber 55\<rparr>]"
proof -
  have h: "schoolCode component_a \<noteq> [] \<and> levelCode component_a \<noteq> [] \<and> examYear component_a \<noteq> []"
    by (simp add: component_a_def)
  from class_results_sorted_descending
         [of component_a identity_upper "five_then_none student_a"
             "[student_a, student_a\<lparr>weightedPercent := JsNumber 90\<rparr>]" student_a student_a student_a] h
  show ?thesis by blast
qed

text \<open>
  C7. If the school code, the level code or the exam year is empty, \<open>fetchClassResults\<close>
  shows the "Missing Information" toast, issues no request and leaves the component
  state, the stored class results included, as it was.
\<close>

theorem missing_fields_rejected:
  "schoolCode c = [] \<or> levelCode c = [] \<or> examYear c = [] \<Longrightarrow>
   fetchClassResults up resp c = (c, missing_information, [])
   \<and> title missing_information = ''Missing Information''
   \<and> classResults (fst (fetchClassResults up resp c)) = classResults c
   \<and> snd (snd (fetchClassResults up resp c)) = []"
  by (simp add: fetchClassResults_def missing_information_def)

theorem missing_fields_rejected_witness:
  "fetchClassResults identity_upper never_ok (component_a\<lparr>schoolCode := []\<rparr>)
     = (component_a\<lparr>schoolCode := []\<rparr>, missing_information, [])
   \<and> title missing_information = ''Missing Information''
   \<and> classResults (fst (fetchClassResults identity_upper never_ok (component_a\<lparr>schoolCode := []\<rparr>)))
       = classResults (component_a\<lparr>schoolCode := []\<rparr>)
   \<and> snd (snd (fetchClassResults identity_upper never_ok (component_a\<lparr>schoolCode := []\<rparr>))) = []"
  using missing_fields_rejected [of "component_a\<lparr>schoolCode := []\<rparr>" identity_upper never_ok]
  by simp

text \<open>
  C8. The subject columns are the subject names of all records, without repetitions and in
  first-seen order (an empty name counts as no name, by the truthiness guard of the code).
  The cell of a student under a subject comes from the first of the student's marks whose
  subject name equals the column, and is \<open>-\<close> when there is none. For a student with
  Math and Physics and one with Math and Chemistry the columns are Math, Physics,
  Chemistry, and the first student's Chemistry cell is \<open>-\<close>.
\<close>

theorem joined_columns_and_cells:
  "classSubjects rs = first_seen (subject_names rs)
   \<and> distinct (classSubjects rs)
   \<and> set (classSubjects rs) =
       {n. n \<noteq> [] \<and> (\<exists>st \<in> set rs. \<exists>ms. rawMark st = Some ms \<and> n \<in> subjectName ` set ms)}
   \<and> (rawMark st = Some (pre @ m # post) \<and> (\<forall>p \<in> set pre. subjectName p \<noteq> subj)
        \<and> subjectName m = subj \<longrightarrow>
      markCell ts st subj =
        (case markPercent m of Some p \<Rightarrow> toFixed1 ts p @ ''%'' | None \<Rightarrow> ''-'')
        @ '' ('' @ (case letterGrade m of Some g \<Rightarrow> g | None \<Rightarrow> ''-'') @ '')'')
   \<and> ((\<forall>ms. rawMark st = Some ms \<longrightarrow> (\<forall>m \<in> set ms. subjectName m \<noteq> subj)) \<longrightarrow>
      markCell ts st subj = ''-'')
   \<and> classSubjects
        [a\<lparr>rawMark := Some [m1\<lparr>subjectName := ''Math''\<rparr>, m2\<lparr>subjectName := ''Physics''\<rparr>]\<rparr>,
         b\<lparr>rawMark := Some [m3\<lparr>subjectName := ''Math''\<rparr>, m4\<lparr>subjectName := ''Chemistry''\<rparr>]\<rparr>]
       = [''Math'', ''Physics'', ''Chemistry'']
   \<and> markCell ts
        (a\<lparr>rawMark := Some [m1\<lparr>subjectName := ''Math''\<rparr>, m2\<lparr>subjectName := ''Physics''\<rparr>]\<rparr>)
        ''Chemistry'' = ''-''"
proof -
  have 1: "classSubjects rs = first_seen (subject_names rs)"
    by (rule classSubjects_first_seen)
  have 2: "distinct (classSubjects rs)"
    unfolding 1 by (rule distinct_first_seen)
  have 3: "set (classSubjects rs) =
       {n. n \<noteq> [] \<and> (\<exists>st \<in> set rs. \<exists>ms. rawMark st = Some ms \<and> n \<in> subjectName ` set ms)}"
    unfolding 1 set_first_seen by (rule set_subject_names)
  have 4: "rawMark st = Some (pre @ m # post) \<and> (\<forall>p \<in> set pre. subjectName p \<noteq> subj)
        \<and> subjectName m = subj \<longrightarrow>
      markCell ts st subj =
        (case markPercent m of Some p \<Rightarrow> toFixed1 ts p @ ''%'' | None \<Rightarrow> ''-'')
        @ '' ('' @ (case letterGrade m of Some g \<Rightarrow> g | None \<Rightarrow> ''-'') @ '')''"
    using markCell_first_match [of st pre m post subj ts] by blast
  have 5: "(\<forall>ms. rawMark st = Some ms \<longrightarrow> (\<forall>m \<in> set ms. subjectName m \<noteq> subj)) \<longrightarrow>
      markCell ts st subj = ''-''"
    using markCell_absent [of st subj ts] by blast
  have 6: "classSubjects
        [a\<lparr>rawMark := Some [m1\<lparr>subjectName := ''Math''\<rparr>, m2\<lparr>subjectName := ''Physics''\<rparr>]\<rparr>,
         b\<lparr>rawMark := Some [m3\<lparr>subjectName := ''Math''\<rparr>, m4\<lparr>subjectName := ''Chemistry''\<rparr>]\<rparr>]
       = [''Math'', ''Physics'', ''Chemistry'']"
    by (simp add: classSubjects_def add_marks_def set_add_def)
  have 7: "markCell ts
        (a\<lparr>rawMark := Some [m1\<lparr>subjectName := ''Math''\<rparr>, m2\<lparr>subjectName := ''Physics''\<rparr>]\<rparr>)
        ''Chemistry'' = ''-''"
    by (simp add: markCell_def)
  from 1 2 3 4 5 6 7 show ?thesis by (intro conjI)
qed

theorem joined_columns_and_cells_witness:
  "classSubjects [student_a, student_b] = first_seen (subject_names [student_a, student_b])
   \<and> distinct (classSubjects [student_a, student_b])
   \<and> classSubjects [student_a, student_b] = [''Math'', ''Physics'', ''Chemistry'']
   \<and> markCell toString_integral student_a ''Physics'' = ''78.0% (S)''
   \<and> markCell toString_integral student_a ''Chemistry'' = ''-''"
proof -
  have f: "rawMark student_a = Some ([math_mark] @ physics_mark # [])
        \<and> (\<forall>p \<in> set [math_mark]. subjectName p \<noteq> ''Physics'')
        \<and> subjectName physics_mark = ''Physics''"
    by (simp add: student_a_def math_mark_def physics_mark_def)
  have n: "\<forall>ms. rawMark student_a = Some ms \<longrightarrow> (\<forall>m \<in> set ms. subjectName m \<noteq> ''Chemistry'')"
    by (simp add: student_a_def math_mark_def physics_mark_def)
  have e: "student_a = student_a\<lparr>rawMark := Some [math_mark\<lparr>subjectName := ''Math''\<rparr>,
                physics_mark\<lparr>subjectName := ''Physics''\<rparr>]\<rparr>"
      "student_b = student_b\<lparr>rawMark := Some [math_mark\<lparr>subjectName := ''Math''\<rparr>,
                chemistry_mark\<lparr>subjectName := ''Chemistry''\<rparr>]\<rparr>"
    by (simp_all add: student_a_def student_b_def math_mark_def physics_mark_def chemistry_mark_def)
  have p: "(case markPercent physics_mark of Some p \<Rightarrow> toFixed1 toString_integral p @ ''%'' | None \<Rightarrow> ''-'')
        @ '' ('' @ (case letterGrade physics_mark of Some g \<Rightarrow> g | None \<Rightarrow> ''-'') @ '')''
      = ''78.0% (S)''"
    by (simp add: physics_mark_def toFixed1_78)
  note i = joined_columns_and_cells
      [where rs = "[student_a, student_b]" and st = student_a and pre = "[math_mark]"
         and m = physics_mark and post = "[]" and subj = "''Physics''" and ts = toString_integral]
  from i have c: "classSubjects [student_a, student_b] = first_seen (subject_names [student_a, student_b])"
    by (rule conjunct1)
  from i have d: "distinct (classSubjects [student_a, student_b])"
    by blast
  from i f have "markCell toString_integral student_a ''Physics'' =
      (case markPercent physics_mark of Some p \<Rightarrow> toFixed1 toString_integral p @ ''%'' | None \<Rightarrow> ''-'')
        @ '' ('' @ (case letterGrade physics_mark of Some g \<Rightarrow> g | None \<Rightarrow> ''-'') @ '')''"
    by blast
  then have 1: "markCell toString_integral student_a ''Physics'' = ''78.0% (S)''"
    unfolding p .
  have 2: "markCell toString_integral student_a ''Chemistry'' = ''-''"
    using joined_columns_and_cells
      [where st = student_a and subj = "''Chemistry''" and ts = toString_integral] n
    by blast
  have 3: "classSubjects [student_a, student_b] = [''Math'', ''Physics'', ''Chemistry'']"
    using joined_columns_and_cells
      [where a = student_a and b = student_b and ?m1.0 = math_mark and ?m2.0 = physics_mark
         and ?m3.0 = math_mark and ?m4.0 = chemistry_mark]
    unfolding e [symmetric] by blast
  from c d 1 2 3 show ?thesis by blast
qed

text \<open>
  C9. With no class results the export is rejected with the "No Data" toast and no file is
  produced. With exactly one student, who has exactly one subject mark (with a subject
  name, a mark percent of 78 and the grade A), the file content is the header row, one
  line feed and the student's row: every cell is between two double-quote characters, the
  cells of a row are separated by commas, and the mark cell is \<open>78.0% (A)\<close>. The
  weighted-percent cell is the number as the runtime prints it, or \<open>null\<close> or
  \<open>undefined\<close> when the payload had no number there, followed by the percent sign.
\<close>

theorem export_csv:
  "(classResults c = [] \<longrightarrow> exportClassResultsCSV ts c = Inl no_data \<and> title no_data = ''No Data'')
   \<and> (classResults c = [s] \<and> rawMark s = Some [m] \<and> subjectName m \<noteq> []
        \<and> markPercent m = Some 78 \<and> letterGrade m = Some ''A'' \<longrightarrow>
      exportClassResultsCSV ts c =
        Inr (''class_results_'' @ schoolCode c @ ''_'' @ levelCode c @ ''_'' @ examYear c @ ''.csv'',
             quote_cell ''Index Number'' @ '','' @ quote_cell ''Name'' @ '',''
               @ quote_cell ''Weighted %'' @ '','' @ quote_cell ''Division'' @ '',''
               @ quote_cell ''Placed School'' @ '','' @ quote_cell ''Placed Combination'' @ '',''
               @ quote_cell (subjectName m)
             @ [CHR 0x0A]
             @ quote_cell (studentIndexNumber s) @ '','' @ quote_cell (studentNames s) @ '',''
               @ quote_cell ((case weightedPercent s of
                              JsUndefined \<Rightarrow> ''undefined''
                            | JsNull \<Rightarrow> ''null''
                            | JsNumber w \<Rightarrow> ts w) @ ''%'')
               @ '','' @ quote_cell (division s) @ '',''
               @ quote_cell (orDash (placedSchoolName s)) @ '',''
               @ quote_cell (orDash (placedCombinationName s)) @ '',''
               @ quote_cell ''78.0% (A)'',
             export_complete))
   \<and> quote_cell x = [CHR 0x22] @ x @ [CHR 0x22]"
proof (intro conjI impI)
  assume "classResults c = []"
  then show "exportClassResultsCSV ts c = Inl no_data"
    by (simp add: exportClassResultsCSV_def)
next
  show "title no_data = ''No Data''"
    by (simp add: no_data_def)
next
  assume a: "classResults c = [s] \<and> rawMark s = Some [m] \<and> subjectName m \<noteq> []
        \<and> markPercent m = Some 78 \<and> letterGrade m = Some ''A''"
  then have cols: "classSubjects [s] = [subjectName m]"
    by (simp add: classSubjects_single)
  have cell: "markCell ts s (subjectName m) = ''78.0% (A)''"
    using a by (simp add: markCell_single)
  have "csvContent ts [s] =
             quote_cell ''Index Number'' @ '','' @ quote_cell ''Name'' @ '',''
               @ quote_cell ''Weighted %'' @ '','' @ quote_cell ''Division'' @ '',''
               @ quote_cell ''Placed School'' @ '','' @ quote_cell ''Placed Combination'' @ '',''
               @ quote_cell (subjectName m)
             @ [CHR 0x0A]
             @ quote_cell (studentIndexNumber s) @ '','' @ quote_cell (studentNames s) @ '',''
               @ quote_cell ((case weightedPercent s of
                              JsUndefined \<Rightarrow> ''undefined''
                            | JsNull \<Rightarrow> ''null''
                            | JsNumber w \<Rightarrow> ts w) @ ''%'')
               @ '','' @ quote_cell (division s) @ '',''
               @ quote_cell (orDash (placedSchoolName s)) @ '',''
               @ quote_cell (orDash (placedCombinationName s)) @ '',''
               @ quote_cell ''78.0% (A)''"
    unfolding csvContent_def csv_headers_def csv_row_def cols
    by (simp add: cell)
  then show "exportClassResultsCSV ts c =
        Inr (''class_results_'' @ schoolCode c @ ''_'' @ levelCode c @ ''_'' @ examYear c @ ''.csv'',
             quote_cell ''Index Number'' @ '','' @ quote_cell ''Name'' @ '',''
               @ quote_cell ''Weighted %'' @ '','' @ quote_cell ''Division'' @ '',''
               @ quote_cell ''Placed School'' @ '','' @ quote_cell ''Placed Combination'' @ '',''
               @ quote_cell (subjectName m)
             @ [CHR 0x0A]
             @ quote_cell (studentIndexNumber s) @ '','' @ quote_cell (studentNames s) @ '',''
               @ quote_cell ((case weightedPercent s of
                              JsUndefined \<Rightarrow> ''undefined''
                            | JsNull \<Rightarrow> ''null''
                            | JsNumber w \<Rightarrow> ts w) @ ''%'')
               @ '','' @ quote_cell (division s) @ '',''
               @ quote_cell (orDash (placedSchoolName s)) @ '',''
               @ quote_cell (orDash (placedCombinationName s)) @ '',''
               @ quote_cell ''78.0% (A)'',
             export_complete)"
    using a by (simp add: exportClassResultsCSV_def)
next
  show "quote_cell x = [CHR 0x22] @ x @ [CHR 0x22]"
    by (simp add: quote_cell_def)
qed

theorem export_csv_witness:
  "exportClassResultsCSV toString_integral component_a = Inl no_data
   \<and> title no_data = ''No Data''
   \<and> exportClassResultsCSV toString_integral (component_a\<lparr>classResults := [student_c]\<rparr>) =
        Inr (''class_results_123456_olc_2025.csv'',
             quote_cell ''Index Number'' @ '','' @ quote_cell ''Name'' @ '',''
               @ quote_cell ''Weighted %'' @ '','' @ quote_cell ''Division'' @ '',''
               @ quote_cell ''Placed School'' @ '','' @ quote_cell ''Placed Combination'' @ '',''
               @ quote_cell ''Math''
             @ [CHR 0x0A]
             @ quote_cell ''123456OLC0012025'' @ '','' @ quote_cell ''Student A'' @ '',''
               @ quote_cell ''55%'' @ '','' @ quote_cell ''I'' @ '',''
               @ quote_cell ''-'' @ '','' @ quote_cell ''-'' @ '',''
               @ quote_cell ''78.0% (A)'',
             export_complete)
   \<and> exportClassResultsCSV toString_integral
        (component_a\<lparr>classResults := [student_c\<lparr>weightedPercent := JsNull\<rparr>]\<rparr>) =
        Inr (''class_results_123456_olc_2025.csv'',
             quote_cell ''Index Number'' @ '','' @ quote_cell ''Name'' @ '',''
               @ quote_cell ''Weighted %'' @ '','' @ quote_cell ''Division'' @ '',''
               @ quote_cell ''Placed School'' @ '','' @ quote_cell ''Placed Combination'' @ '',''
               @ quote_cell ''Math''
             @ [CHR 0x0A]
             @ quote_cell ''123456OLC0012025'' @ '','' @ quote_cell ''Student A'' @ '',''
               @ quote_cell ''null%'' @ '','' @ quote_cell ''I'' @ '',''
               @ quote_cell ''-'' @ '','' @ quote_cell ''-'' @ '',''
               @ quote_cell ''78.0% (A)'',
             export_complete)"
proof -
  have e: "classResults component_a = []"
    by (simp add: component_a_def)
  have h: "classResults (component_a\<lparr>classResults := [student_c]\<rparr>) = [student_c]
        \<and> rawMark student_c = Some [math_mark] \<and> subjectName math_mark \<noteq> []
        \<and> markPercent math_mark = Some 78 \<and> letterGrade math_mark = Some ''A''"
    by (simp add: student_c_def math_mark_def)
  have n: "classResults (component_a\<lparr>classResults := [student_c\<lparr>weightedPercent := JsNull\<rparr>]\<rparr>)
          = [student_c\<lparr>weightedPercent := JsNull\<rparr>]
        \<and> rawMark (student_c\<lparr>weightedPercent := JsNull\<rparr>) = Some [math_mark]
        \<and> subjectName math_mark \<noteq> []
        \<and> markPercent math_mark = Some 78 \<and> letterGrade math_mark = Some ''A''"
    by (simp add: student_c_def math_mark_def)
  have t: "toString_integral 55 = ''55''"
    by (simp add: toString_integral_def String_nat_digits digit_char_def)
  have 1: "exportClassResultsCSV toString_integral component_a = Inl no_data
      \<and> title no_data = ''No Data''"
    using export_csv [where c = component_a and ts = toString_integral] e by blast
  have 2: "exportClassResultsCSV toString_integral (component_a\<lparr>classResults := [student_c]\<rparr>) =
        Inr (''class_results_123456_olc_2025.csv'',
             quote_cell ''Index Number'' @ '','' @ quote_cell ''Name'' @ '',''
               @ quote_cell ''Weighted %'' @ '','' @ quote_cell ''Division'' @ '',''
               @ quote_cell ''Placed School'' @ '','' @ quote_cell ''Placed Combination'' @ '',''
               @ quote_cell ''Math''
             @ [CHR 0x0A]
             @ quote_cell ''123456OLC0012025'' @ '','' @ quote_cell ''Student A'' @ '',''
               @ quote_cell ''55%'' @ '','' @ quote_cell ''I'' @ '',''
               @ quote_cell ''-'' @ '','' @ quote_cell ''-'' @ '',''
               @ quote_cell ''78.0% (A)'',
             export_complete)"
    using export_csv [where c = "component_a\<lparr>classResults := [student_c]\<rparr>" and s = student_c
        and m = math_mark and ts = toString_integral] h
    by (simp add: student_c_def student_a_def math_mark_def component_a_def orDash_def t)
  have 3: "exportClassResultsCSV toString_integral
        (component_a\<lparr>classResults := [student_c\<lparr>weightedPercent := JsNull\<rparr>]\<rparr>) =
        Inr (''class_results_123456_olc_2025.csv'',
             quote_cell ''Index Number'' @ '','' @ quote_cell ''Name'' @ '',''
               @ quote_cell ''Weighted %'' @ '','' @ quote_cell ''Division'' @ '',''
               @ quote_cell ''Placed School'' @ '','' @ quote_cell ''Placed Combination'' @ '',''
               @ quote_cell ''Math''
             @ [CHR 0x0A]
             @ quote_cell ''123456OLC0012025'' @ '','' @ quote_cell ''Student A'' @ '',''
               @ quote_cell ''null%'' @ '','' @ quote_cell ''I'' @ '',''
               @ quote_cell ''-'' @ '','' @ quote_cell ''-'' @ '',''
               @ quote_cell ''78.0% (A)'',
             export_complete)"
    using export_csv
        [where c = "component_a\<lparr>classResults := [student_c\<lparr>weightedPercent := JsNull\<rparr>]\<rparr>"
           and s = "student_c\<lparr>weightedPercent := JsNull\<rparr>"
           and m = math_mark and ts = toString_integral] n
    by (simp add: student_c_def student_a_def math_mark_def component_a_def orDash_def)
  from 1 2 3 show ?thesis by (intro conjI) blast+
qed

text \<open>
  C10. Every record accumulated by the scan has a non-empty \<open>studentNames\<close>: this holds
  of the results of a scan from the initial state, it is preserved by a scan from any
  state whose results satisfy it, and a probe that is not found adds nothing to the
  results.
\<close>

theorem results_have_names:
  "(\<forall>r \<in> set (results (scan_loop up sc lc yr resp scan_init)). studentNames r \<noteq> [])
   \<and> ((\<forall>r \<in> set (results st). studentNames r \<noteq> []) \<longrightarrow>
        (\<forall>r \<in> set (results (scan_loop up sc lc yr resp st)). studentNames r \<noteq> []))
   \<and> (\<not> is_found (resp (seq st)) \<longrightarrow> results (loop_body up sc lc yr resp st) = results st)"
proof -
  have g: "\<And>st. (\<forall>r \<in> set (results st). studentNames r \<noteq> []) \<Longrightarrow>
        (\<forall>r \<in> set (results (scan_loop up sc lc yr resp st)). studentNames r \<noteq> [])"
  proof -
    fix st :: scan_state
    assume a: "\<forall>r \<in> set (results st). studentNames r \<noteq> []"
    show "\<forall>r \<in> set (results (scan_loop up sc lc yr resp st)). studentNames r \<noteq> []"
    proof
      fix r assume "r \<in> set (results (scan_loop up sc lc yr resp st))"
      then have "r \<in> set (results st) \<or>
          r \<in> set (List.map_filter (\<lambda>k. found_record (resp k)) [seq st ..< seq (scan_loop up sc lc yr resp st)])"
        by (subst (asm) results_scan_loop) simp
      then show "studentNames r \<noteq> []"
        using a by (auto dest!: in_set_map_filter dest: found_record_name)
    qed
  qed
  have "\<forall>r \<in> set (results (scan_loop up sc lc yr resp scan_init)). studentNames r \<noteq> []"
    by (rule g) (simp add: scan_init_def)
  moreover have "\<not> is_found (resp (seq st)) \<longrightarrow> results (loop_body up sc lc yr resp st) = results st"
    by (simp add: is_found_def loop_body_empty)
  ultimately show ?thesis using g by blast
qed

theorem results_have_names_witness:
  "results (scan_loop identity_upper ''123456'' ''olc'' ''2025'' (five_then_none student_a) scan_init)
     = [student_a, student_a, student_a, student_a, student_a]
   \<and> studentNames
        (hd (results (scan_loop identity_upper ''123456'' ''olc'' ''2025'' (five_then_none student_a) scan_init)))
       \<noteq> []
   \<and> is_found (five_then_none student_a 6) = False
   \<and> results (loop_body identity_upper ''123456'' ''olc'' ''2025'' (five_then_none student_a)
        (scan_init\<lparr>seq := 6\<rparr>)) = []"
proof -
  have f: "\<forall>k. 1 \<le> k \<and> k \<le> 5 \<longrightarrow> is_found (five_then_none student_a k)"
    by (simp add: five_then_none_def is_found_def found_record_def student_a_def)
  have e: "\<forall>k. 5 < k \<longrightarrow> \<not> is_found (five_then_none student_a k)"
    by (simp add: five_then_none_def is_found_def found_record_def)
  have u: "[1 ..< 6] = [1, 2, 3, 4, 5::nat]"
    by (simp add: upt_conv_Cons)
  have r: "results (scan_loop identity_upper ''123456'' ''olc'' ''2025'' (five_then_none student_a) scan_init)
     = [student_a, student_a, student_a, student_a, student_a]"
    unfolding scan_five_then_empty [OF f e] u
    by (simp add: five_then_none_def found_record_def student_a_def)
  have n: "\<not> is_found (five_then_none student_a (seq (scan_init\<lparr>seq := 6\<rparr>)))"
    using e by simp
  show ?thesis
    using results_have_names [of identity_upper "''123456''" "''olc''" "''2025''" "five_then_none student_a" "scan_init\<lparr>seq := 6\<rparr>"]
      r n
    by (simp add: scan_init_def)
qed

end
